theory Spec2Isabelle
  imports Complex_Main
begin

section \<open>Strings and dictionaries of the host language\<close>

text \<open>
  A Python \<open>str\<close> is a sequence of Unicode code points, and \<open>len\<close> counts code
  points; the texts handled are Japanese, so a string is a list of code points.
\<close>

type_synonym ustring = "nat list"

text \<open>The code points for which \<open>str.isspace\<close> holds (also the class \<open>\s\<close>).\<close>

definition py_isspace :: "nat \<Rightarrow> bool" where
  "py_isspace c \<longleftrightarrow>
     (9 \<le> c \<and> c \<le> 13) \<or> (28 \<le> c \<and> c \<le> 32) \<or> c = 133 \<or> c = 160 \<or> c = 5760 \<or>
     (8192 \<le> c \<and> c \<le> 8202) \<or> c = 8232 \<or> c = 8233 \<or> c = 8239 \<or> c = 8287 \<or> c = 12288"

text \<open>\<open>s.strip()\<close>: leading and trailing white space removed.\<close>

definition py_strip :: "ustring \<Rightarrow> ustring" where
  "py_strip s = rev (dropWhile py_isspace (rev (dropWhile py_isspace s)))"

text \<open>
  \<open>s.split()\<close> without arguments: the maximal runs of non-space code points, in order;
  \<open>cur\<close> is the token being read.
\<close>

fun split_from :: "ustring \<Rightarrow> ustring \<Rightarrow> ustring list" where
  "split_from cur [] = (if cur = [] then [] else [cur])"
| "split_from cur (c # cs) =
     (if py_isspace c then (if cur = [] then split_from [] cs else cur # split_from [] cs)
      else split_from (cur @ [c]) cs)"

definition py_split :: "ustring \<Rightarrow> ustring list" where
  "py_split s = split_from [] s"

text \<open>
  A Python \<open>dict\<close> keeps its keys unique and in insertion order: an association list,
  where storing under a known key replaces the value in place and storing under a new
  key appends.
\<close>

type_synonym ('k, 'v) dict = "('k \<times> 'v) list"

definition dict_keys :: "('k, 'v) dict \<Rightarrow> 'k list" where
  "dict_keys d = map fst d"

definition dict_contains :: "'k \<Rightarrow> ('k, 'v) dict \<Rightarrow> bool" where
  "dict_contains k d \<longleftrightarrow> k \<in> set (dict_keys d)"

definition dict_get :: "('k, 'v) dict \<Rightarrow> 'k \<Rightarrow> 'v option" where
  "dict_get d k = map_of d k"

fun dict_set :: "'k \<Rightarrow> 'v \<Rightarrow> ('k, 'v) dict \<Rightarrow> ('k, 'v) dict" where
  "dict_set k v [] = [(k, v)]"
| "dict_set k v (p # ps) = (if fst p = k then (k, v) # ps else p # dict_set k v ps)"

text \<open>The dictionary built from the members of a JSON object, read in order.\<close>

definition dict_of_members :: "('k \<times> 'v) list \<Rightarrow> ('k, 'v) dict" where
  "dict_of_members ms = foldl (\<lambda>d (k, v). dict_set k v d) [] ms"

section \<open>The pattern store\<close>

text \<open>
  An entry of \<open>confidence_patterns\<close>. Confidences are Python floats; they are modelled
  as real numbers, so the arithmetic below is exact.
\<close>

record confidence_pattern =
  avg_confidence :: real
  count :: int
  first_seen :: ustring

text \<open>An entry of \<open>word_level_data\<close>.\<close>

record word_info =
  word :: ustring
  confidence :: real
  start_time :: real
  end_time :: real

record stats =
  total_files :: int
  successful_transcriptions :: int
  claude_corrections :: int
  claude_classifications :: int
  total_cost :: real
  classification_cost :: real
  processing_time :: real
  learned_patterns :: int

text \<open>
  A persisted JSON file: absent, present but not parseable, or holding a JSON object,
  given by its members in file order. This is what the learning step and the pipeline
  see of a file. The text that \<open>json.dump\<close> writes and \<open>json.load\<close> reads is modelled
  in the section on the persisted text, with the write that fails.
\<close>

datatype 'a json_file = Missing | Corrupt | Doc 'a

text \<open>
  The state of a \<open>ClaudeWhisperIntegration\<close>: its two dictionaries, its counters and the
  two files \<open>learned_corrections.json\<close> and \<open>confidence_patterns.json\<close> it owns.
\<close>

record integration =
  learned_corrections :: "(ustring, ustring) dict"
  confidence_patterns :: "(ustring, confidence_pattern) dict"
  processing_stats :: stats
  learned_corrections_file :: "(ustring \<times> ustring) list json_file"
  confidence_patterns_file :: "(ustring \<times> confidence_pattern) list json_file"

definition initial_stats :: stats where
  "initial_stats = \<lparr>total_files = 0, successful_transcriptions = 0, claude_corrections = 0,
     claude_classifications = 0, total_cost = 0, classification_cost = 0,
     processing_time = 0, learned_patterns = 0\<rparr>"

definition load_learned_corrections :: "integration \<Rightarrow> (ustring, ustring) dict" where
  "load_learned_corrections s =
     (case learned_corrections_file s of
        Missing \<Rightarrow> []
      | Corrupt \<Rightarrow> []
      | Doc ms \<Rightarrow> dict_of_members ms)"

definition save_learned_corrections :: "integration \<Rightarrow> integration" where
  "save_learned_corrections s = s\<lparr>learned_corrections_file := Doc (learned_corrections s)\<rparr>"

definition load_confidence_patterns :: "integration \<Rightarrow> (ustring, confidence_pattern) dict" where
  "load_confidence_patterns s =
     (case confidence_patterns_file s of
        Missing \<Rightarrow> []
      | Corrupt \<Rightarrow> []
      | Doc ms \<Rightarrow> dict_of_members ms)"

definition save_confidence_patterns :: "integration \<Rightarrow> integration" where
  "save_confidence_patterns s = s\<lparr>confidence_patterns_file := Doc (confidence_patterns s)\<rparr>"

text \<open>
  \<open>__init__\<close>, given the two files found on disk: both dictionaries are loaded and the
  counters start at zero.
\<close>

definition init_integration ::
  "(ustring \<times> ustring) list json_file \<Rightarrow> (ustring \<times> confidence_pattern) list json_file
     \<Rightarrow> integration" where
  "init_integration cf pf =
     (let s0 = \<lparr>learned_corrections = [], confidence_patterns = [],
                processing_stats = initial_stats,
                learned_corrections_file = cf, confidence_patterns_file = pf\<rparr>;
          s1 = s0\<lparr>learned_corrections := load_learned_corrections s0\<rparr>
      in s1\<lparr>confidence_patterns := load_confidence_patterns s1\<rparr>)"

text \<open>
  The first loop of \<open>learn_from_correction\<close>, over the position-wise pairs of tokens;
  the state of the loop is the corrections dictionary and \<open>learning_count\<close>.
\<close>

fun learn_words ::
  "(ustring \<times> ustring) list \<Rightarrow> (ustring, ustring) dict \<times> nat \<Rightarrow> (ustring, ustring) dict \<times> nat"
  where
  "learn_words [] (lc, n) = (lc, n)"
| "learn_words ((orig_word, corr_word) # ps) (lc, n) =
     (if orig_word \<noteq> corr_word \<and> length orig_word > 2 \<and> length corr_word > 2 then
        (if \<not> dict_contains orig_word lc
         then learn_words ps (dict_set orig_word corr_word lc, n + 1)
         else learn_words ps (lc, n))
      else learn_words ps (lc, n))"

text \<open>
  The second loop, over \<open>low_confidence_words\<close>. \<open>now i\<close> is the clock read while the
  \<open>i\<close>-th entry of the list is handled (\<open>datetime.now().isoformat()\<close>).
\<close>

fun learn_confidence ::
  "(nat \<Rightarrow> ustring) \<Rightarrow> nat \<Rightarrow> word_info list \<Rightarrow> (ustring, confidence_pattern) dict \<times> nat
     \<Rightarrow> (ustring, confidence_pattern) dict \<times> nat" where
  "learn_confidence now i [] (cp, n) = (cp, n)"
| "learn_confidence now i (wi # ws) (cp, n) =
     (let w = py_strip (word wi); c = confidence wi in
      case dict_get cp w of
        Some p \<Rightarrow>
          learn_confidence now (i + 1) ws
            (dict_set w (p\<lparr>count := count p + 1,
                            avg_confidence := (avg_confidence p + c) / 2\<rparr>) cp, n)
      | None \<Rightarrow>
          learn_confidence now (i + 1) ws
            (dict_set w \<lparr>avg_confidence = c, count = 1, first_seen = now i\<rparr> cp, n + 1))"

definition learn_from_correction ::
  "(nat \<Rightarrow> ustring) \<Rightarrow> ustring \<Rightarrow> ustring \<Rightarrow> word_info list \<Rightarrow> integration \<Rightarrow> integration"
  where
  "learn_from_correction now original_text corrected_text low_confidence_words s =
     (let original_words = py_split original_text;
          corrected_words = py_split corrected_text;
          (lc, n1) = learn_words (zip original_words corrected_words) (learned_corrections s, 0);
          (cp, learning_count) =
             learn_confidence now 0 low_confidence_words (confidence_patterns s, n1);
          s1 = s\<lparr>learned_corrections := lc, confidence_patterns := cp\<rparr>
      in if learning_count > 0 then
           (let s2 = save_confidence_patterns (save_learned_corrections s1) in
            s2\<lparr>processing_stats := (processing_stats s2)
                 \<lparr>learned_patterns := learned_patterns (processing_stats s2)
                                        + int learning_count\<rparr>\<rparr>)
         else s1)"

subsection \<open>Notions used to state the properties of the pattern store\<close>

text \<open>The confidences with which the token \<open>t\<close> is observed in a list of words, in order.\<close>

definition observed :: "ustring \<Rightarrow> word_info list \<Rightarrow> real list" where
  "observed t ws = map confidence (filter (\<lambda>wi. py_strip (word wi) = t) ws)"

text \<open>
  The pairwise decayed average: the running pair (average, occurrences) after a list of
  observations, starting from no entry or from a stored one.
\<close>

fun decayed :: "(real \<times> int) option \<Rightarrow> real list \<Rightarrow> (real \<times> int) option" where
  "decayed r [] = r"
| "decayed None (c # cs) = decayed (Some (c, 1)) cs"
| "decayed (Some (a, k)) (c # cs) = decayed (Some ((a + c) / 2, k + 1)) cs"

text \<open>What the store holds for a token: its average and its occurrence count.\<close>

definition summary :: "(ustring, confidence_pattern) dict \<Rightarrow> ustring \<Rightarrow> (real \<times> int) option" where
  "summary d t = map_option (\<lambda>p. (avg_confidence p, count p)) (dict_get d t)"

text \<open>A sequence of calls of \<open>learn_from_correction\<close>, each with its clock and arguments.\<close>

type_synonym learn_call = "(nat \<Rightarrow> ustring) \<times> ustring \<times> ustring \<times> word_info list"

fun learn_calls :: "learn_call list \<Rightarrow> integration \<Rightarrow> integration" where
  "learn_calls [] s = s"
| "learn_calls ((now, original_text, corrected_text, ws) # cs) s =
     learn_calls cs (learn_from_correction now original_text corrected_text ws s)"

definition observations :: "ustring \<Rightarrow> learn_call list \<Rightarrow> real list" where
  "observations t cs = concat (map (\<lambda>(now, original_text, corrected_text, ws). observed t ws) cs)"

text \<open>A pair of tokens that differ and are both longer than two code points.\<close>

definition qualifies :: "ustring \<times> ustring \<Rightarrow> bool" where
  "qualifies p \<longleftrightarrow> fst p \<noteq> snd p \<and> length (fst p) > 2 \<and> length (snd p) > 2"

text \<open>
  The pairs of a list whose key is neither among \<open>seen\<close> nor the key of an earlier pair
  of the list.
\<close>

fun first_by_key :: "'k list \<Rightarrow> ('k \<times> 'v) list \<Rightarrow> ('k \<times> 'v) list" where
  "first_by_key seen [] = []"
| "first_by_key seen (p # ps) =
     (if fst p \<in> set seen then first_by_key seen ps else p # first_by_key (fst p # seen) ps)"


subsection \<open>Sample data\<close>

definition word_abc :: ustring where
  "word_abc = [97, 98, 99]"



text \<open>The token U+515A U+4E3B of the specification's second scenario.\<close>

definition token_toshu :: ustring where
  "token_toshu = [20826, 20027]"

definition seen_with :: "real \<Rightarrow> learn_call" where
  "seen_with c = ((\<lambda>i. []), [], [],
     [\<lparr>word = [32, 20826, 20027], confidence = c, start_time = 0, end_time = 1\<rparr>])"

definition sample_state :: integration where
  "sample_state = \<lparr>learned_corrections = [([97, 98, 99], [120, 121, 122])],
     confidence_patterns = [(word_abc, \<lparr>avg_confidence = 3/10, count = 1, first_seen = []\<rparr>)],
     processing_stats = initial_stats,
     learned_corrections_file = Missing, confidence_patterns_file = Corrupt\<rparr>"

text \<open>A raw text of five tokens (abc, defg, hij, klm, defg) and a corrected text of six (abd, defh, hi, klmn, defx, q).\<close>

definition sample_raw :: ustring where
  "sample_raw = [97,98,99, 32, 100,101,102,103, 32, 104,105,106, 32,32, 107,108,109, 10,
     100,101,102,103]"

definition sample_corrected :: ustring where
  "sample_corrected = [97,98,100, 32, 100,101,102,104, 32, 104,105, 32, 107,108,109,110, 32,
     100,101,102,120, 32, 113]"

section \<open>The correction pipeline\<close>

text \<open>\<open>old in s\<close>: the string \<open>old\<close> occurs in \<open>s\<close>.\<close>

fun py_in :: "ustring \<Rightarrow> ustring \<Rightarrow> bool" where
  "py_in old [] = (old = [])"
| "py_in old (c # cs) = (take (length old) (c # cs) = old \<or> py_in old cs)"

text \<open>
  \<open>s.replace(old, new)\<close>: the occurrences of \<open>old\<close> are replaced from left to right,
  without overlap; an empty \<open>old\<close> matches before every code point and at the end.
\<close>

function py_replace :: "ustring \<Rightarrow> ustring \<Rightarrow> ustring \<Rightarrow> ustring" where
  "py_replace old new s =
     (if old = [] then new @ concat (map (\<lambda>c. c # new) s)
      else if s = [] then []
      else if take (length old) s = old then new @ py_replace old new (drop (length old) s)
      else hd s # py_replace old new (tl s))"
  by pat_completeness auto
termination
  by (relation "measure (\<lambda>(old, new, s). length s)") auto

declare py_replace.simps [simp del]

text \<open>
  The regular expressions of \<open>_clean_text_basic\<close>, in the order of their use: a URL, an
  ISO-like time stamp, a run of \<open>=\<close>, the group \<open>:!:\<close>, a run of two or more U+3002, a
  run of two or more U+3001, a run of white space. \<open>re.sub\<close> is a library function: the
  pipeline takes it as the parameter \<open>re_sub\<close> (pattern, replacement, text).
\<close>

datatype regex =
  Url_re | Timestamp_re | Equals_run_re | Colon_bang_re | Kuten_run_re | Touten_run_re
  | Space_run_re

definition clean_text_basic :: "(regex \<Rightarrow> ustring \<Rightarrow> ustring \<Rightarrow> ustring) \<Rightarrow> ustring \<Rightarrow> ustring" where
  "clean_text_basic re_sub text0 =
     (let t1 = re_sub Url_re [] text0;
          t2 = re_sub Timestamp_re [] t1;
          t3 = re_sub Equals_run_re [] t2;
          t4 = re_sub Colon_bang_re [] t3;
          t5 = re_sub Kuten_run_re [12290] t4;
          t6 = re_sub Touten_run_re [12289] t5;
          t7 = re_sub Space_run_re [32] t6
      in py_strip t7)"

text \<open>The built-in dictionary of recognition errors, in its declared order.\<close>

definition whisper_patterns :: "(ustring, ustring) dict" where
  "whisper_patterns =
    [([22320, 27665, 20826], [33258, 27665, 20826]),
     ([30707, 27211, 12525, 12471], [30707, 30772, 33538]),
     ([24613, 23433, 37096, 27966], [26087, 23433, 20493, 27966]),
     ([20826, 29983, 24180, 23616], [20826, 22519, 34892, 37096]),
     ([20826, 20027], [20826, 39318]), ([38542, 27573], [20250, 35527]),
     ([25163, 21205], [25903, 25345]),
     ([12431, 12431, 12428, 12394], [21696, 12428, 12394]),
     ([28316, 12414, 12427, 12363], [12383, 12414, 12427, 12363]),
     ([39364, 30446, 12395], [12384, 12417, 12395]), ([30064, 35211], [24847, 35211]),
     ([33104, 12426, 20999, 12387, 12390, 12427], [33104, 12426, 12365, 12387, 12390, 12356, 12427]),
     ([12460, 12477, 12522, 12531, 12434], [12460, 12477, 12522, 12531, 31246, 12434]),
     ([36009, 22770, 25285, 20445], [36009, 22770, 20385, 26684]),
     ([12373, 12387, 12373, 12395, 36914, 21270], [20808, 36208, 12426]),
     ([12460, 12477, 12473, 12479], [12460, 12477, 12522, 12531, 12473, 12479, 12531, 12489])]"

definition apply_learned_patterns :: "integration \<Rightarrow> ustring \<Rightarrow> ustring" where
  "apply_learned_patterns s text0 =
     foldl (\<lambda>corrected (original, correction).
              if py_in original corrected then py_replace original correction corrected
              else corrected)
       text0 (learned_corrections s)"

definition apply_whisper_patterns :: "integration \<Rightarrow> ustring \<Rightarrow> ustring" where
  "apply_whisper_patterns s text0 =
     apply_learned_patterns s
       (foldl (\<lambda>corrected (err, correction). py_replace err correction corrected)
          text0 whisper_patterns)"

text \<open>
  Exceptions that leave a function. \<open>Recognition_error\<close> stands for whatever the
  recognition engine raises, \<open>Response_shape_error\<close> for the error of reading
  \<open>result['content'][0]['text']\<close> from a body that has no such field.
\<close>

datatype py_exception =
  Recognition_error | Response_shape_error | Unbound_local_error | Value_error
  | Unicode_encode_error

text \<open>
  What one HTTP request to the oracle gives: status 200 with the text of the first content
  block, status 200 with a body of another shape, status 429, another status, or a
  \<open>RequestException\<close>.
\<close>

datatype response =
  Ok200 ustring | Malformed200 | Rate_limited429 | Other_status nat | Request_exception

text \<open>
  \<open>_call_claude_api\<close>. The oracle is given by its answer to each attempt; the prompt it
  is sent plays no part in the control flow, and the waits between attempts take time
  only. \<open>None\<close> is returned when every attempt has failed.
\<close>

fun call_claude_api_from :: "(nat \<Rightarrow> response) \<Rightarrow> nat \<Rightarrow> nat \<Rightarrow> py_exception + ustring option" where
  "call_claude_api_from oracle attempt 0 = Inr None"
| "call_claude_api_from oracle attempt (Suc remaining) =
     (case oracle attempt of
        Ok200 t \<Rightarrow> Inr (Some (py_strip t))
      | Malformed200 \<Rightarrow> Inl Response_shape_error
      | Rate_limited429 \<Rightarrow> call_claude_api_from oracle (attempt + 1) remaining
      | Other_status c \<Rightarrow> call_claude_api_from oracle (attempt + 1) remaining
      | Request_exception \<Rightarrow> call_claude_api_from oracle (attempt + 1) remaining)"

definition call_claude_api :: "(nat \<Rightarrow> response) \<Rightarrow> nat \<Rightarrow> py_exception + ustring option" where
  "call_claude_api oracle max_retries = call_claude_api_from oracle 0 max_retries"

definition calculate_cost :: "ustring \<Rightarrow> ustring \<Rightarrow> real" where
  "calculate_cost original corrected =
     (let input_tokens = real (length original) / 1.5;
          output_tokens = real (length corrected) / 1.5;
          input_cost = (input_tokens / 1000000) * 3.00;
          output_cost = (output_tokens / 1000000) * 15.00
      in input_cost + output_cost)"

definition calculate_classification_cost :: "ustring \<Rightarrow> real" where
  "calculate_classification_cost text0 =
     (let input_tokens = (real (length (take 500 text0)) + 200) / 1.5;
          output_tokens = 10 / 1.5;
          input_cost = (input_tokens / 1000000) * 3.00;
          output_cost = (output_tokens / 1000000) * 15.00
      in input_cost + output_cost)"

text \<open>The result of the recognition engine; a missing key of a dictionary is \<open>None\<close>.\<close>

record whisper_word =
  ww_word :: ustring
  ww_probability :: "real option"
  ww_start :: "real option"
  ww_end :: "real option"

record whisper_segment =
  seg_start :: "real option"
  seg_end :: "real option"
  seg_words :: "whisper_word list"

record whisper_result =
  w_text :: ustring
  w_language :: "ustring option"
  w_segments :: "whisper_segment list"

record whisper_info =
  info_language :: ustring
  info_segments :: nat
  info_duration :: real

text \<open>
  The dictionary \<open>result\<close> of \<open>transcribe_with_claude_correction\<close>. The string
  \<open>confidence_info\<close> is kept as the two numbers it is formatted from: the average
  confidence and the number of words below 0.5.
\<close>

record transcription =
  success :: bool
  original_transcript :: ustring
  corrected_transcript :: ustring
  whisper_info :: "whisper_info option"
  claude_applied :: bool
  cost :: real
  result_processing_time :: real
  confidence_info :: "(real \<times> nat) option"
  word_level_data :: "word_info list"
  error :: "py_exception option"

definition initial_result :: transcription where
  "initial_result = \<lparr>success = False, original_transcript = [], corrected_transcript = [],
     whisper_info = None, claude_applied = False, cost = 0, result_processing_time = 0,
     confidence_info = None, word_level_data = [], error = None\<rparr>"

definition or_default :: "'a \<Rightarrow> 'a option \<Rightarrow> 'a" where
  "or_default d x = (case x of None \<Rightarrow> d | Some v \<Rightarrow> v)"

definition collect_word_data :: "whisper_result \<Rightarrow> word_info list" where
  "collect_word_data r =
     concat (map (\<lambda>segment.
       concat (map (\<lambda>wi.
         case ww_probability wi of
           None \<Rightarrow> []
         | Some p \<Rightarrow> [\<lparr>word = ww_word wi, confidence = p,
                       start_time = or_default 0 (ww_start wi),
                       end_time = or_default 0 (ww_end wi)\<rparr>])
         (seg_words segment)))
       (w_segments r))"

definition low_confidence_words :: "word_info list \<Rightarrow> word_info list" where
  "low_confidence_words word_data = filter (\<lambda>w. confidence w < 0.5) word_data"

definition confidence_summary :: "word_info list \<Rightarrow> (real \<times> nat) option" where
  "confidence_summary word_data =
     (let confidence_scores = map confidence word_data in
      if confidence_scores \<noteq> [] then
        Some (sum_list confidence_scores / real (length confidence_scores),
              length (low_confidence_words word_data))
      else None)"

definition add_processing_time :: "real \<Rightarrow> integration \<Rightarrow> integration" where
  "add_processing_time t s =
     s\<lparr>processing_stats := (processing_stats s)
         \<lparr>processing_time := processing_time (processing_stats s) + t\<rparr>\<rparr>"

definition count_success :: "integration \<Rightarrow> integration" where
  "count_success s =
     s\<lparr>processing_stats := (processing_stats s)
         \<lparr>successful_transcriptions := successful_transcriptions (processing_stats s) + 1\<rparr>\<rparr>"

definition count_correction :: "real \<Rightarrow> integration \<Rightarrow> integration" where
  "count_correction c s =
     s\<lparr>processing_stats := (processing_stats s)
         \<lparr>claude_corrections := claude_corrections (processing_stats s) + 1,
          total_cost := total_cost (processing_stats s) + c\<rparr>\<rparr>"

text \<open>
  \<open>transcribe_with_claude_correction\<close>. \<open>whisper\<close> is what loading the model and
  transcribing gives, \<open>oracle\<close> the rewrite oracle, \<open>elapsed\<close> the time the call takes
  and \<open>now\<close> the clock of the learning step. An exception raised inside the \<open>try\<close> is
  recorded under \<open>error\<close>; the \<open>finally\<close> block adds the time in every case.
\<close>

definition transcribe_with_claude_correction ::
  "(regex \<Rightarrow> ustring \<Rightarrow> ustring \<Rightarrow> ustring) \<Rightarrow> (nat \<Rightarrow> ustring) \<Rightarrow> real
     \<Rightarrow> py_exception + whisper_result \<Rightarrow> (nat \<Rightarrow> response) \<Rightarrow> integration
     \<Rightarrow> transcription \<times> integration" where
  "transcribe_with_claude_correction re_sub now elapsed whisper oracle s =
     (let (result, s1) =
        (case whisper of
           Inl e \<Rightarrow> (initial_result\<lparr>error := Some e\<rparr>, s)
         | Inr whisper_result \<Rightarrow>
             (let original_text = w_text whisper_result;
                  word_data = collect_word_data whisper_result;
                  result1 = initial_result
                    \<lparr>original_transcript := original_text,
                     whisper_info := Some
                       \<lparr>info_language = or_default [106, 97] (w_language whisper_result),
                        info_segments = length (w_segments whisper_result),
                        info_duration = sum_list (map (\<lambda>seg. or_default 0 (seg_end seg)
                                           - or_default 0 (seg_start seg))
                                         (w_segments whisper_result))\<rparr>,
                     word_level_data := word_data,
                     confidence_info := confidence_summary word_data\<rparr>;
                  cleaned_text = clean_text_basic re_sub original_text;
                  pattern_corrected = apply_whisper_patterns s cleaned_text
              in case call_claude_api oracle 3 of
                   Inl e \<Rightarrow> (result1\<lparr>error := Some e\<rparr>, s)
                 | Inr claude_corrected \<Rightarrow>
                     (let (result2, s2) =
                        (if claude_corrected \<noteq> None \<and> claude_corrected \<noteq> Some [] then
                           (let t = the claude_corrected;
                                c = calculate_cost original_text t;
                                s' = learn_from_correction now original_text t
                                       (word_level_data result1) s
                            in (result1\<lparr>corrected_transcript := t, claude_applied := True,
                                         cost := c\<rparr>,
                                count_correction c s'))
                         else (result1\<lparr>corrected_transcript := pattern_corrected\<rparr>, s))
                      in (result2\<lparr>success := True\<rparr>, count_success s2))))
      in (result\<lparr>result_processing_time := elapsed\<rparr>, add_processing_time elapsed s1))"

subsection \<open>Notions used to state the properties of the pipeline\<close>

text \<open>
  An attempt that gives no text and raises nothing: status 429, another status other than
  200, or a \<open>RequestException\<close>.
\<close>

definition is_failure :: "response \<Rightarrow> bool" where
  "is_failure r = (case r of Ok200 t \<Rightarrow> False | Malformed200 \<Rightarrow> False | _ \<Rightarrow> True)"

text \<open>
  A recognition result with the single word \<open>abc\<close>, recognised with confidence 0.9.
\<close>

definition confident_run :: whisper_result where
  "confident_run = \<lparr>w_text = [97, 98, 99], w_language = None,
     w_segments = [\<lparr>seg_start = Some 0, seg_end = Some 1,
       seg_words = [\<lparr>ww_word = [97, 98, 99], ww_probability = Some (9/10),
                     ww_start = Some 0, ww_end = Some 1\<rparr>]\<rparr>]\<rparr>"

text \<open>
  An oracle that fails on every attempt, in each of the three ways.
\<close>

definition failing_oracle :: "nat \<Rightarrow> response" where
  "failing_oracle a = (if a = 0 then Rate_limited429 else if a = 1 then Other_status 500
                       else Request_exception)"

section \<open>The category classifier\<close>

text \<open>
  The categories with their folders, and the keywords of the fallback classification, both
  in their declared order. The last category of \<open>category_folders\<close>, U+305D U+306E
  U+4ED6 ("other"), has no keywords.
\<close>

definition category_folders :: "(ustring, ustring) dict" where
  "category_folders =
    [([12499, 12472, 12493, 12473, 12539, 32076, 21942], [98, 117, 115, 105, 110, 101, 115, 115]),
     ([25216, 34899, 12539, 12503, 12525, 12464, 12521, 12511, 12531, 12464], [116, 101, 99, 104, 110, 111, 108, 111, 103, 121]),
     ([25945, 32946, 12539, 23398, 32722], [101, 100, 117, 99, 97, 116, 105, 111, 110]),
     ([12456, 12531, 12479, 12540, 12486, 12452, 12513, 12531, 12488], [101, 110, 116, 101, 114, 116, 97, 105, 110, 109, 101, 110, 116]),
     ([26085, 24120, 12539, 12521, 12452, 12501, 12473, 12479, 12452, 12523], [108, 105, 102, 101, 115, 116, 121, 108, 101]),
     ([12491, 12517, 12540, 12473, 12539, 26178, 20107], [110, 101, 119, 115]),
     ([20581, 24247, 12539, 21307, 30274], [104, 101, 97, 108, 116, 104]),
     ([26009, 29702, 12539, 12464, 12523, 12513], [99, 111, 111, 107, 105, 110, 103]),
     ([26053, 34892, 12539, 35251, 20809], [116, 114, 97, 118, 101, 108]),
     ([12473, 12509, 12540, 12484, 12539, 12501, 12451, 12483, 12488, 12493, 12473], [115, 112, 111, 114, 116, 115]),
     ([38899, 27005, 12539, 12450, 12540, 12488], [109, 117, 115, 105, 99, 95, 97, 114, 116]),
     ([12466, 12540, 12512], [103, 97, 109, 105, 110, 103]),
     ([31185, 23398, 12539, 30740, 31350], [115, 99, 105, 101, 110, 99, 101]),
     ([25919, 27835, 12539, 31038, 20250], [112, 111, 108, 105, 116, 105, 99, 115]),
     ([12381, 12398, 20182], [111, 116, 104, 101, 114, 115])]"

definition category_keywords :: "(ustring, ustring list) dict" where
  "category_keywords =
    [([12499, 12472, 12493, 12473, 12539, 32076, 21942],
      [[20250, 35696], [22770, 19978], [12510, 12540, 12465, 12486, 12451, 12531, 12464],
       [25126, 30053], [20104, 31639], [39015, 23458], [21942, 26989], [32076, 21942],
       [25237, 36039], [12499, 12472, 12493, 12473], [20225, 26989], [20250, 31038]]),
     ([25216, 34899, 12539, 12503, 12525, 12464, 12521, 12511, 12531, 12464],
      [[12503, 12525, 12464, 12521, 12511, 12531, 12464], [65, 73],
       [12471, 12473, 12486, 12512], [12450, 12503, 12522],
       [12477, 12501, 12488, 12454, 12455, 12450],
       [12487, 12540, 12479, 12505, 12540, 12473], [65, 80, 73],
       [12463, 12521, 12454, 12489], [12450, 12523, 12468, 12522, 12474, 12512],
       [12467, 12531, 12500, 12517, 12540, 12479], [73, 84], [68, 88]]),
     ([25919, 27835, 12539, 31038, 20250],
      [[25919, 27835], [36984, 25369], [25919, 31574], [22269, 20250], [35696, 21729],
       [25919, 24220], [33258, 27665, 20826], [25919, 20826], [39318, 30456],
       [22823, 33251], [27861, 24459], [21046, 24230], [25913, 38761],
       [31038, 20250, 21839, 38988]]),
     ([12491, 12517, 12540, 12473, 12539, 26178, 20107],
      [[12491, 12517, 12540, 12473], [22577, 36947], [20107, 20214], [31038, 20250],
       [32076, 28168], [22269, 38555], [36895, 22577], [35352, 32773, 20250, 35211],
       [30330, 34920], [35519, 26619]]),
     ([12456, 12531, 12479, 12540, 12486, 12452, 12513, 12531, 12488],
      [[26144, 30011], [38899, 27005], [12450, 12491, 12513], [12466, 12540, 12512],
       [33464, 33021], [12385, 12356, 12363, 12431], [12489, 12521, 12510],
       [12496, 12521, 12456, 12486, 12451], [12450, 12452, 12489, 12523], [20467, 20778],
       [27468, 25163]]),
     ([26009, 29702, 12539, 12464, 12523, 12513],
      [[26009, 29702], [12524, 12471, 12500], [39135, 26448], [12464, 12523, 12513],
       [12354, 12370, 29577], [12381, 12358, 12417, 12435], [39135, 20107], [35519, 29702],
       [12524, 12473, 12488, 12521, 12531], [32654, 21619, 12375, 12356],
       [39135, 12409, 29289]]),
     ([12473, 12509, 12540, 12484, 12539, 12501, 12451, 12483, 12488, 12493, 12473],
      [[12473, 12509, 12540, 12484], [12501, 12451, 12483, 12488, 12493, 12473],
       [36939, 21205], [12488, 12524, 12540, 12491, 12531, 12464], [31478, 25216],
       [31563, 12488, 12524], [37326, 29699], [12469, 12483, 12459, 12540], [77, 86, 80],
       [22823, 35895, 32724, 24179], [22823, 35895], [12472, 12515, 12483, 12472],
       [12489, 12472, 12515, 12540, 12473], [12516, 12531, 12461, 12540, 12473],
       [12513, 12472, 12515, 12540, 12522, 12540, 12464], [77, 76, 66],
       [12496, 12473, 12465], [12486, 12491, 12473], [12468, 12523, 12501]]),
     ([25945, 32946, 12539, 23398, 32722],
      [[23398, 32722], [25480, 26989], [35611, 32681], [35430, 39443], [30740, 31350],
       [35542, 25991], [23398, 29983], [25945, 32946], [21193, 24375], [36039, 26684],
       [22823, 23398], [23398, 26657]]),
     ([20581, 24247, 12539, 21307, 30274],
      [[20581, 24247], [21307, 30274], [30149, 27671], [27835, 30274],
       [12480, 12452, 12456, 12483, 12488], [12501, 12451, 12483, 12488, 12493, 12473],
       [26628, 39178], [20104, 38450], [34220], [21307, 24107]]),
     ([26085, 24120, 12539, 12521, 12452, 12501, 12473, 12479, 12452, 12523],
      [[23478, 26063], [21451, 20154], [36023, 12356, 29289], [29983, 27963],
       [36259, 21619], [12501, 12449, 12483, 12471, 12519, 12531], [32654, 23481],
       [12452, 12531, 12486, 12522, 12450], [26085, 24120],
       [12521, 12452, 12501, 12473, 12479, 12452, 12523]]),
     ([26053, 34892, 12539, 35251, 20809],
      [[26053, 34892], [35251, 20809], [12507, 12486, 12523], [35251, 20809, 22320],
       [28023, 22806], [22269, 20869, 26053, 34892], [28201, 27849],
       [12522, 12478, 12540, 12488]]),
     ([38899, 27005, 12539, 12450, 12540, 12488],
      [[38899, 27005], [12450, 12540, 12488], [33464, 34899], [27005, 22120],
       [32117, 30011], [12487, 12470, 12452, 12531],
       [12463, 12522, 12456, 12452, 12486, 12451, 12502]]),
     ([12466, 12540, 12512],
      [[12499, 12487, 12458, 12466, 12540, 12512], [12466, 12540, 12512, 23455, 27841],
       [101, 12473, 12509, 12540, 12484], [12466, 12540, 12512, 38283, 30330],
       [12503, 12524, 12452]]),
     ([31185, 23398, 12539, 30740, 31350],
      [[31185, 23398], [30740, 31350], [23455, 39443], [29702, 35542], [30330, 35211],
       [23398, 34899, 35542, 25991], [25216, 34899, 38761, 26032]])]"


definition sonota :: ustring where
  "sonota = [12381, 12398, 20182]"

text \<open>
  \<open>s.count(sub)\<close>: the number of occurrences of \<open>sub\<close> in \<open>s\<close>, counted from left
  to right without overlap.
\<close>

function py_count :: "ustring \<Rightarrow> ustring \<Rightarrow> nat" where
  "py_count sub s =
     (if sub = [] then length s + 1
      else if s = [] then 0
      else if take (length sub) s = sub then 1 + py_count sub (drop (length sub) s)
      else py_count sub (tl s))"
  by pat_completeness auto
termination
  by (relation "measure (\<lambda>(sub, s). length s)") auto

declare py_count.simps [simp del]

text \<open>
  \<open>max(xs, key=f)\<close>: the loop keeps the first item whose key is maximal; on an empty
  sequence \<open>max\<close> raises \<open>ValueError\<close>.
\<close>

fun max_from :: "('a \<Rightarrow> nat) \<Rightarrow> 'a \<Rightarrow> 'a list \<Rightarrow> 'a" where
  "max_from f best [] = best"
| "max_from f best (y # ys) = (if f y > f best then max_from f y ys else max_from f best ys)"

definition py_max_by :: "('a \<Rightarrow> nat) \<Rightarrow> 'a list \<Rightarrow> py_exception + 'a" where
  "py_max_by f xs = (case xs of [] \<Rightarrow> Inl Value_error | x # rest \<Rightarrow> Inr (max_from f x rest))"

text \<open>
  The dictionary \<open>category_scores\<close>: for each category the sum, over its keywords, of the
  occurrences of the lower-cased keyword in the lower-cased text. \<open>str.lower\<close> is the
  parameter \<open>lower\<close>.
\<close>

definition category_scores :: "(ustring \<Rightarrow> ustring) \<Rightarrow> ustring \<Rightarrow> (ustring, nat) dict" where
  "category_scores lower text0 =
     (let text_lower = lower text0 in
      map (\<lambda>(category, keywords).
             (category, sum_list (map (\<lambda>keyword. py_count (lower keyword) text_lower) keywords)))
        category_keywords)"

text \<open>
  \<open>fallback_category\<close>: the key of the first item with the greatest score when the
  greatest score is positive (every key is looked up in the dictionary it comes from, so
  the maximum is taken over the items), and "other" when it is zero.
\<close>

definition fallback_category :: "(ustring \<Rightarrow> ustring) \<Rightarrow> ustring \<Rightarrow> py_exception + ustring" where
  "fallback_category lower text0 =
     (let scores = category_scores lower text0 in
      case py_max_by id (map snd scores) of
        Inl e \<Rightarrow> Inl e
      | Inr m \<Rightarrow>
          if m > 0 then
            (case py_max_by snd scores of Inl e \<Rightarrow> Inl e | Inr best \<Rightarrow> Inr (fst best))
          else Inr sonota)"

definition count_classification :: "real \<Rightarrow> integration \<Rightarrow> integration" where
  "count_classification c s =
     s\<lparr>processing_stats := (processing_stats s)
         \<lparr>classification_cost := classification_cost (processing_stats s) + c,
          claude_classifications := claude_classifications (processing_stats s) + 1\<rparr>\<rparr>"

text \<open>
  \<open>_classify_with_claude_api\<close>: one request; \<open>resp\<close> is what it gives. Every exception
  is caught and gives \<open>None\<close>.
\<close>

definition classify_with_claude_api ::
  "response \<Rightarrow> ustring \<Rightarrow> integration \<Rightarrow> ustring option \<times> integration" where
  "classify_with_claude_api resp text0 s =
     (case resp of
        Ok200 t \<Rightarrow>
          (let category = py_strip t in
           if dict_contains category category_folders
           then (Some category, count_classification (calculate_classification_cost text0) s)
           else (None, s))
      | Malformed200 \<Rightarrow> (None, s)
      | Rate_limited429 \<Rightarrow> (None, s)
      | Other_status c \<Rightarrow> (None, s)
      | Request_exception \<Rightarrow> (None, s))"

definition classify_text ::
  "(ustring \<Rightarrow> ustring) \<Rightarrow> response \<Rightarrow> ustring \<Rightarrow> integration
     \<Rightarrow> (py_exception + ustring) \<times> integration" where
  "classify_text lower resp text0 s =
     (case fallback_category lower text0 of
        Inl e \<Rightarrow> (Inl e, s)
      | Inr fallback \<Rightarrow>
          (let (claude_category, s') = classify_with_claude_api resp text0 s in
           if claude_category \<noteq> None \<and> claude_category \<noteq> Some []
           then (Inr (the claude_category), s')
           else (Inr fallback, s')))"

subsection \<open>Sample data for the classifier\<close>

text \<open>
  The technology category, an oracle answer that wraps it in white space, a text without
  any keyword, and the text of the specification's fourth scenario (U+4F1A U+8B70 once,
  the word for programming twice).
\<close>

definition category_tech :: ustring where
  "category_tech = [25216, 34899, 12539, 12503, 12525, 12464, 12521, 12511, 12531, 12464]"

definition label_tech_padded :: ustring where
  "label_tech_padded = [32] @ category_tech @ [10]"

definition word_xyz :: ustring where
  "word_xyz = [120, 121, 122]"

definition text_meeting :: ustring where
  "text_meeting = [20250, 35696, 12391, 12503, 12525, 12464, 12521, 12511, 12531, 12464, 12392,
     12503, 12525, 12464, 12521, 12511, 12531, 12464]"

section \<open>The retrieval index\<close>

text \<open>
  A record of the index of \<open>IntegratedVoiceRAGSystem\<close>. \<open>processing_info\<close> is the
  result of the transcription; \<open>saved_file_path\<close> is the optional key set after the
  transcript file has been written.
\<close>

record entry =
  entry_id :: nat
  source_type :: ustring
  source_path :: ustring
  title :: ustring
  entry_original_transcript :: ustring
  entry_corrected_transcript :: ustring
  category :: ustring
  embedding :: "real list"
  created_at :: ustring
  processing_info :: transcription
  word_count :: nat
  char_count :: nat
  saved_file_path :: "ustring option"

text \<open>
  The state of an \<open>IntegratedVoiceRAGSystem\<close>: the correction component, the list of
  records and the file \<open>db_path\<close> that persists it.
\<close>

record rag_system =
  claude_integration :: integration
  database :: "entry list"
  db_file :: "entry list json_file"

definition load_database :: "rag_system \<Rightarrow> entry list" where
  "load_database s = (case db_file s of Missing \<Rightarrow> [] | Corrupt \<Rightarrow> [] | Doc es \<Rightarrow> es)"

definition save_database :: "rag_system \<Rightarrow> rag_system" where
  "save_database s = s\<lparr>db_file := Doc (database s)\<rparr>"

definition init_system ::
  "(ustring \<times> ustring) list json_file \<Rightarrow> (ustring \<times> confidence_pattern) list json_file
     \<Rightarrow> entry list json_file \<Rightarrow> rag_system" where
  "init_system cf pf dbf =
     (let s0 = \<lparr>claude_integration = init_integration cf pf, database = [], db_file = dbf\<rparr>
      in s0\<lparr>database := load_database s0\<rparr>)"

text \<open>
  What the file system does during \<open>save_transcript_to_file\<close>: whether
  \<open>os.makedirs\<close> succeeds, whether the folder exists afterwards, whether opening and
  writing the file succeed, whether the file exists afterwards, and the path of the file.
\<close>

record file_system =
  makedirs_ok :: bool
  folder_exists :: bool
  write_ok :: bool
  file_exists :: bool
  new_file_path :: ustring

text \<open>
  The \<open>try\<close> block of \<open>save_transcript_to_file\<close>: the path of the written file, or
  an exception, with the information whether the local variable \<open>filename\<close> had been
  assigned when it was raised. \<open>filename\<close> is assigned after the folder has been
  created and checked, and before the file is opened.
\<close>

definition save_transcript_body :: "file_system \<Rightarrow> bool + ustring" where
  "save_transcript_body fs =
     (if \<not> makedirs_ok fs then Inl False
      else if \<not> folder_exists fs then Inl False
      else if \<not> write_ok fs then Inl True
      else if file_exists fs then Inr (new_file_path fs)
      else Inl True)"

text \<open>
  The handler \<open>except Exception\<close> prints the folder and \<open>filename\<close> and returns
  \<open>None\<close>; reading \<open>filename\<close> before its assignment raises
  \<open>UnboundLocalError\<close>, which leaves the function.
\<close>

definition save_transcript_to_file :: "file_system \<Rightarrow> py_exception + ustring option" where
  "save_transcript_to_file fs =
     (case save_transcript_body fs of
        Inr file_path \<Rightarrow> Inr (Some file_path)
      | Inl filename_assigned \<Rightarrow>
          if filename_assigned then Inr None else Inl Unbound_local_error)"

text \<open>
  \<open>add_to_database\<close>. \<open>encode\<close> is the embedding oracle and \<open>stamp\<close> the clock.
  The result is the exception that leaves the function, if any, and the state; the
  record is appended and saved before the transcript file is written, and setting
  \<open>saved_file_path\<close> changes the record that is in the list.
\<close>

definition add_to_database ::
  "(ustring \<Rightarrow> real list) \<Rightarrow> ustring \<Rightarrow> file_system \<Rightarrow> ustring \<Rightarrow> ustring \<Rightarrow> ustring
     \<Rightarrow> ustring \<Rightarrow> ustring \<Rightarrow> ustring \<Rightarrow> transcription \<Rightarrow> rag_system
     \<Rightarrow> py_exception option \<times> rag_system" where
  "add_to_database encode stamp fs src_type src_path ttl original corrected cat info s =
     (let new_entry = \<lparr>entry_id = length (database s) + 1, source_type = src_type,
            source_path = src_path, title = ttl, entry_original_transcript = original,
            entry_corrected_transcript = corrected, category = cat,
            embedding = encode corrected, created_at = stamp, processing_info = info,
            word_count = length (py_split corrected), char_count = length corrected,
            saved_file_path = None\<rparr>;
          s1 = save_database (s\<lparr>database := database s @ [new_entry]\<rparr>)
      in case save_transcript_to_file fs of
           Inl e \<Rightarrow> (Some e, s1)
         | Inr saved_file \<Rightarrow>
             if saved_file \<noteq> None \<and> saved_file \<noteq> Some [] then
               (None, save_database
                  (s1\<lparr>database := database s @ [new_entry\<lparr>saved_file_path := saved_file\<rparr>]\<rparr>))
             else (None, s1))"

text \<open>
  \<open>xs[:k]\<close> for an integer \<open>k\<close>: the first \<open>k\<close> items, and for a negative \<open>k\<close> all
  but the last \<open>-k\<close>.
\<close>

definition py_slice_to :: "int \<Rightarrow> 'a list \<Rightarrow> 'a list" where
  "py_slice_to k xs = (if k \<ge> 0 then take (nat k) xs else take (length xs - nat (- k)) xs)"

text \<open>
  \<open>search_similar\<close>. \<open>cosine_similarity\<close> is the library function, taken as a
  parameter, and so are its values, as real numbers. \<open>sort(key, reverse=True)\<close> is
  stable: a stable sort by the negated key.
\<close>

definition search_similar ::
  "(ustring \<Rightarrow> real list) \<Rightarrow> (real list \<Rightarrow> real list \<Rightarrow> real) \<Rightarrow> ustring \<Rightarrow> int \<Rightarrow> rag_system
     \<Rightarrow> (entry \<times> real) list" where
  "search_similar encode cosine_similarity query top_k s =
     (if database s = [] then []
      else
        (let query_embedding = encode query;
             similarities = map (\<lambda>e. (e, cosine_similarity query_embedding (embedding e)))
                              (database s)
         in py_slice_to top_k (sort_key (\<lambda>x. - snd x) similarities)))"

text \<open>The record and the search of \<open>VoiceRAGSystem\<close> (\<open>voice_rag_poc.py\<close>).\<close>

record poc_entry =
  poc_id :: nat
  poc_source_type :: ustring
  poc_source_path :: ustring
  poc_title :: ustring
  poc_transcript :: ustring
  poc_category :: ustring
  poc_embedding :: "real list"
  poc_created_at :: ustring
  poc_word_count :: nat
  poc_char_count :: nat

definition poc_search_similar ::
  "(ustring \<Rightarrow> real list) \<Rightarrow> (real list \<Rightarrow> real list \<Rightarrow> real) \<Rightarrow> ustring \<Rightarrow> int
     \<Rightarrow> poc_entry list \<Rightarrow> (poc_entry \<times> real) list" where
  "poc_search_similar encode cosine_similarity query top_k db =
     (if db = [] then []
      else
        (let query_embedding = encode query;
             similarities = map (\<lambda>e. (e, cosine_similarity query_embedding (poc_embedding e))) db
         in py_slice_to top_k (sort_key (\<lambda>x. - snd x) similarities)))"

text \<open>
  \<open>clear_learned_patterns\<close>: \<open>confirm\<close> is the answer typed by the user, stripped and
  lower-cased; 121 is the letter y.
\<close>

definition clear_learned_patterns :: "ustring \<Rightarrow> rag_system \<Rightarrow> rag_system" where
  "clear_learned_patterns confirm s =
     (if confirm = [121] then
        s\<lparr>claude_integration :=
            save_confidence_patterns (save_learned_corrections
              ((claude_integration s)\<lparr>learned_corrections := [], confidence_patterns := []\<rparr>))\<rparr>
      else s)"

text \<open>
  Everything outside the system that one call of \<open>process_audio_file\<close> meets: the
  library functions, the clocks, the recognition engine, the two oracles, the embedding
  oracle and the file system.
\<close>

record environment =
  env_re_sub :: "regex \<Rightarrow> ustring \<Rightarrow> ustring \<Rightarrow> ustring"
  env_lower :: "ustring \<Rightarrow> ustring"
  env_now :: "nat \<Rightarrow> ustring"
  env_stamp :: ustring
  env_elapsed :: real
  env_audio_exists :: bool
  env_whisper :: "py_exception + whisper_result"
  env_rewrite :: "nat \<Rightarrow> response"
  env_classify :: response
  env_encode :: "ustring \<Rightarrow> real list"
  env_files :: file_system

text \<open>
  \<open>process_audio_file\<close>: transcription, classification, then the record. The result is
  the returned flag or the exception that leaves the call. \<open>basename\<close> is the title
  derived from the path and 102 105 108 101 the source type \<open>file\<close>.
\<close>

definition process_audio_file ::
  "environment \<Rightarrow> ustring \<Rightarrow> ustring \<Rightarrow> rag_system \<Rightarrow> (py_exception + bool) \<times> rag_system" where
  "process_audio_file env file_path basename s =
     (if \<not> env_audio_exists env then (Inr False, s)
      else
        (let (result, ci) = transcribe_with_claude_correction (env_re_sub env) (env_now env)
                (env_elapsed env) (env_whisper env) (env_rewrite env) (claude_integration s);
             s1 = s\<lparr>claude_integration := ci\<rparr>
         in if \<not> success result then (Inr False, s1)
            else
              (let (classified, ci2) = classify_text (env_lower env) (env_classify env)
                      (corrected_transcript result) ci;
                   s2 = s1\<lparr>claude_integration := ci2\<rparr>
               in case classified of
                    Inl e \<Rightarrow> (Inl e, s2)
                  | Inr cat \<Rightarrow>
                      (case add_to_database (env_encode env) (env_stamp env) (env_files env)
                              [102, 105, 108, 101] file_path basename
                              (original_transcript result) (corrected_transcript result)
                              cat result s2 of
                         (Some e, s3) \<Rightarrow> (Inl e, s3)
                       | (None, s3) \<Rightarrow> (Inr True, s3)))))"

text \<open>
  The states the system can be in: the state after \<open>__init__\<close>, and the state after any
  public operation that changes a state, called with any arguments in any environment.
\<close>

inductive reachable :: "rag_system \<Rightarrow> bool" where
  reach_init: "reachable (init_system cf pf dbf)"
| reach_process: "reachable s \<Longrightarrow> reachable (snd (process_audio_file env file_path basename s))"
| reach_transcribe:
    "reachable s \<Longrightarrow>
     reachable (s\<lparr>claude_integration :=
       snd (transcribe_with_claude_correction re_sub now elapsed whisper oracle
              (claude_integration s))\<rparr>)"
| reach_learn:
    "reachable s \<Longrightarrow>
     reachable (s\<lparr>claude_integration :=
       learn_from_correction now original_text corrected_text ws (claude_integration s)\<rparr>)"
| reach_classify:
    "reachable s \<Longrightarrow>
     reachable (s\<lparr>claude_integration :=
       snd (classify_text lower resp text0 (claude_integration s))\<rparr>)"
| reach_add:
    "reachable s \<Longrightarrow>
     reachable (snd (add_to_database encode stamp fs src_type src_path ttl original corrected
                       cat info s))"
| reach_clear: "reachable s \<Longrightarrow> reachable (clear_learned_patterns confirm s)"

text \<open>The first number printed by \<open>show_processing_stats\<close>.\<close>

definition displayed_total_files :: "rag_system \<Rightarrow> int" where
  "displayed_total_files s = total_files (processing_stats (claude_integration s))"

subsection \<open>Sample data for the index\<close>

text \<open>
  A record with a given number and embedding, a store of two records, and a similarity
  that reads the first coordinate of the stored embedding.
\<close>

definition sample_entry :: "nat \<Rightarrow> real list \<Rightarrow> entry" where
  "sample_entry i v = \<lparr>entry_id = i, source_type = [102, 105, 108, 101], source_path = [],
     title = [], entry_original_transcript = [], entry_corrected_transcript = [],
     category = sonota, embedding = v, created_at = [], processing_info = initial_result,
     word_count = 0, char_count = 0, saved_file_path = None\<rparr>"

definition two_records :: rag_system where
  "two_records = \<lparr>claude_integration = init_integration Missing Missing,
     database = [sample_entry 1 [1], sample_entry 2 [3]], db_file = Missing\<rparr>"

definition first_coordinate :: "real list \<Rightarrow> real list \<Rightarrow> real" where
  "first_coordinate q v = (case v of [] \<Rightarrow> 0 | x # xs \<Rightarrow> x)"

text \<open>
  Two file systems: one in which the folder cannot be created, one in which the folder
  is there and the file cannot be written.
\<close>

definition folder_creation_fails :: file_system where
  "folder_creation_fails = \<lparr>makedirs_ok = False, folder_exists = False, write_ok = False,
     file_exists = False, new_file_path = []\<rparr>"

definition file_write_fails :: file_system where
  "file_write_fails = \<lparr>makedirs_ok = True, folder_exists = True, write_ok = False,
     file_exists = False, new_file_path = []\<rparr>"

text \<open>
  The system after \<open>__init__\<close> with nothing on disk, and after one transcription
  whose recognition succeeds and whose rewrite fails.
\<close>

definition empty_system :: rag_system where
  "empty_system = init_system Missing Missing Missing"

definition processed_once :: rag_system where
  "processed_once = empty_system\<lparr>claude_integration :=
     snd (transcribe_with_claude_correction (\<lambda>p r t. t) (\<lambda>i. []) 1 (Inr confident_run)
            failing_oracle (claude_integration empty_system))\<rparr>"

section \<open>The persisted text\<close>

text \<open>
  The files of the pattern store as texts: what \<open>json.dump(obj, f, ensure_ascii=False,
  indent=2)\<close> writes into a file opened with \<open>encoding='utf-8'\<close>, and what
  \<open>json.load\<close> makes of the text of a file. The texts are strings of code points; the file
  holds their UTF-8 encoding, which exists for every code point but the surrogates. The
  translation of line ends by the file object is left out: a written string holds no raw
  line end, so that it touches the white space between the tokens only.
\<close>

subsection \<open>Writing\<close>

text \<open>
  A JSON string as \<open>json\<close> writes it without \<open>ensure_ascii\<close>: between quotes, with
  the backslash, the quote and the control characters below U+0020 escaped (the short
  escapes for backspace, form feed, line feed, carriage return and tab, \<open>\u00XX\<close> in
  lower-case hexadecimal for the others) and every other code point as it is.
\<close>

definition hex_digit :: "nat \<Rightarrow> nat" where
  "hex_digit d = (if d < 10 then 48 + d else 87 + d)"

definition escape_char :: "nat \<Rightarrow> ustring" where
  "escape_char c =
     (if c = 92 then [92, 92]
      else if c = 34 then [92, 34]
      else if c = 8 then [92, 98]
      else if c = 12 then [92, 102]
      else if c = 10 then [92, 110]
      else if c = 13 then [92, 114]
      else if c = 9 then [92, 116]
      else if c < 32 then [92, 117, 48, 48, hex_digit (c div 16), hex_digit (c mod 16)]
      else [c])"

definition encode_basestring :: "ustring \<Rightarrow> ustring" where
  "encode_basestring s = [34] @ concat (map escape_char s) @ [34]"

text \<open>An integer in decimal, as \<open>int.__repr__\<close> writes it.\<close>

function show_nat :: "nat \<Rightarrow> ustring" where
  "show_nat n = (if n < 10 then [48 + n] else show_nat (n div 10) @ [48 + n mod 10])"
  by pat_completeness auto
termination
  by (relation "measure (\<lambda>n. n)") auto

declare show_nat.simps [simp del]

definition show_int :: "int \<Rightarrow> ustring" where
  "show_int i = (if i < 0 then 45 # show_nat (nat (- i)) else show_nat (nat i))"

text \<open>
  The values inside a confidence pattern: a string, an integer or a float. A float is
  written by \<open>float.__repr__\<close>, which is the parameter \<open>float_repr\<close>.
\<close>

datatype jscalar = JStr ustring | JInt int | JFloat real

definition scalar_chunk :: "(real \<Rightarrow> ustring) \<Rightarrow> jscalar \<Rightarrow> ustring" where
  "scalar_chunk float_repr v =
     (case v of JStr s \<Rightarrow> encode_basestring s | JInt i \<Rightarrow> show_int i | JFloat x \<Rightarrow> float_repr x)"

text \<open>
  \<open>_iterencode_dict\<close> with an indent of two spaces: the pieces of text it yields, in
  order. \<open>level\<close> is the indent level of the dictionary, \<open>vc\<close> yields the pieces of a
  value; the item separator is a comma and the key separator a colon and a space.
\<close>

definition newline_indent :: "nat \<Rightarrow> ustring" where
  "newline_indent level = 10 # replicate (2 * level) 32"

fun items_chunks :: "nat \<Rightarrow> ('v \<Rightarrow> ustring list) \<Rightarrow> bool \<Rightarrow> (ustring \<times> 'v) list \<Rightarrow> ustring list"
  where
  "items_chunks level vc first [] = []"
| "items_chunks level vc first ((key, value) # items) =
     (if first then [] else [44 # newline_indent level])
     @ [encode_basestring key, [58, 32]] @ vc value @ items_chunks level vc False items"

definition iterencode_dict :: "nat \<Rightarrow> ('v \<Rightarrow> ustring list) \<Rightarrow> (ustring \<times> 'v) list \<Rightarrow> ustring list"
  where
  "iterencode_dict level vc dct =
     (if dct = [] then [[123, 125]]
      else [[123], newline_indent (level + 1)] @ items_chunks (level + 1) vc True dct
           @ [newline_indent level, [125]])"

text \<open>
  The three keys of a confidence pattern, and the pattern as the dictionary it is in the
  program, in the order in which \<open>learn_from_correction\<close> creates its keys.
\<close>

definition key_avg_confidence :: ustring where
  "key_avg_confidence = [97, 118, 103, 95, 99, 111, 110, 102, 105, 100, 101, 110, 99, 101]"

definition key_count :: ustring where
  "key_count = [99, 111, 117, 110, 116]"

definition key_first_seen :: ustring where
  "key_first_seen = [102, 105, 114, 115, 116, 95, 115, 101, 101, 110]"

definition pattern_fields :: "confidence_pattern \<Rightarrow> (ustring \<times> jscalar) list" where
  "pattern_fields p =
     [(key_avg_confidence, JFloat (avg_confidence p)), (key_count, JInt (count p)),
      (key_first_seen, JStr (first_seen p))]"

definition corrections_chunks :: "(ustring, ustring) dict \<Rightarrow> ustring list" where
  "corrections_chunks lc = iterencode_dict 0 (\<lambda>v. [encode_basestring v]) lc"

definition patterns_chunks ::
  "(real \<Rightarrow> ustring) \<Rightarrow> (ustring, confidence_pattern) dict \<Rightarrow> ustring list" where
  "patterns_chunks float_repr cp =
     iterencode_dict 0
       (\<lambda>p. iterencode_dict 1 (\<lambda>v. [scalar_chunk float_repr v]) (pattern_fields p)) cp"

text \<open>
  \<open>json.dump\<close> writes the pieces one by one into the file, which \<open>open(..., 'w')\<close> has
  emptied. A piece with a code point that UTF-8 cannot encode raises
  \<open>UnicodeEncodeError\<close>; the pieces written before stay in the file.
\<close>

definition utf8_encodable :: "nat \<Rightarrow> bool" where
  "utf8_encodable c \<longleftrightarrow> c < 55296 \<or> (57343 < c \<and> c < 1114112)"

fun write_chunks :: "ustring list \<Rightarrow> ustring \<Rightarrow> py_exception option \<times> ustring" where
  "write_chunks [] written = (None, written)"
| "write_chunks (chunk # chunks) written =
     (if list_all utf8_encodable chunk then write_chunks chunks (written @ chunk)
      else (Some Unicode_encode_error, written))"

subsection \<open>Reading\<close>

text \<open>
  The scanner of strings, applied to the text after the opening quote: the string and
  the text after the closing quote, or \<open>None\<close> where \<open>json\<close> raises. An escape of a
  high surrogate followed by an escape of a low surrogate is one code point.
\<close>

definition is_json_ws :: "nat \<Rightarrow> bool" where
  "is_json_ws c \<longleftrightarrow> c = 32 \<or> c = 9 \<or> c = 10 \<or> c = 13"

definition skip_ws :: "ustring \<Rightarrow> ustring" where
  "skip_ws text0 = dropWhile is_json_ws text0"

definition hex_value :: "nat \<Rightarrow> nat option" where
  "hex_value c =
     (if 48 \<le> c \<and> c \<le> 57 then Some (c - 48)
      else if 97 \<le> c \<and> c \<le> 102 then Some (c - 87)
      else if 65 \<le> c \<and> c \<le> 70 then Some (c - 55)
      else None)"

definition hex4 :: "nat \<Rightarrow> nat \<Rightarrow> nat \<Rightarrow> nat \<Rightarrow> nat option" where
  "hex4 a b c d =
     (case hex_value a of None \<Rightarrow> None | Some w \<Rightarrow>
      case hex_value b of None \<Rightarrow> None | Some x \<Rightarrow>
      case hex_value c of None \<Rightarrow> None | Some y \<Rightarrow>
      case hex_value d of None \<Rightarrow> None | Some z \<Rightarrow> Some (4096 * w + 256 * x + 16 * y + z))"

definition unescape :: "nat \<Rightarrow> nat option" where
  "unescape e =
     (if e = 34 then Some 34
      else if e = 92 then Some 92
      else if e = 47 then Some 47
      else if e = 98 then Some 8
      else if e = 102 then Some 12
      else if e = 110 then Some 10
      else if e = 114 then Some 13
      else if e = 116 then Some 9
      else None)"

definition prepend :: "nat \<Rightarrow> (ustring \<times> ustring) option \<Rightarrow> (ustring \<times> ustring) option" where
  "prepend c r = (case r of None \<Rightarrow> None | Some (s, rest) \<Rightarrow> Some (c # s, rest))"

text \<open>
  The escape \<open>\uXXXX\<close>, applied to the text after the \<open>u\<close>: the code point and the
  text after the escape. After the escape of a high surrogate, a second escape with four
  hexadecimal digits that are not a low surrogate is left in the text.
\<close>

definition scan_unicode_escape :: "ustring \<Rightarrow> (nat \<times> ustring) option" where
  "scan_unicode_escape es =
     (case es of
        h1 # h2 # h3 # h4 # rest \<Rightarrow>
          (case hex4 h1 h2 h3 h4 of
             None \<Rightarrow> None
           | Some u \<Rightarrow>
               if 55296 \<le> u \<and> u \<le> 56319 then
                 (case rest of
                    b # v # g1 # g2 # g3 # g4 # after \<Rightarrow>
                      if b = 92 \<and> v = 117 then
                        (case hex4 g1 g2 g3 g4 of
                           None \<Rightarrow> None
                         | Some lo \<Rightarrow>
                             if 56320 \<le> lo \<and> lo \<le> 57343
                             then Some (65536 + (u - 55296) * 1024 + (lo - 56320), after)
                             else Some (u, rest))
                      else Some (u, rest)
                  | _ \<Rightarrow> Some (u, rest))
               else Some (u, rest))
      | _ \<Rightarrow> None)"

fun scan_escape :: "ustring \<Rightarrow> (nat \<times> ustring) option" where
  "scan_escape [] = None"
| "scan_escape (e # es) =
     (if e = 117 then scan_unicode_escape es
      else (case unescape e of None \<Rightarrow> None | Some ch \<Rightarrow> Some (ch, es)))"

function scanstring :: "ustring \<Rightarrow> (ustring \<times> ustring) option" where
  "scanstring [] = None"
| "scanstring (c # cs) =
     (if c = 34 then Some ([], cs)
      else if c = 92 then
        (case scan_escape cs of
           None \<Rightarrow> None
         | Some (u, rest) \<Rightarrow> prepend u (scanstring rest))
      else if c < 32 then None
      else prepend c (scanstring cs))"
  by pat_completeness auto
termination
proof (relation "measure length")
  show "wf (measure length)" by simp
next
  fix c :: nat and cs x2 u rest
  assume "scan_escape cs = Some x2" and "(u, rest) = x2"
  then have e: "scan_escape cs = Some (u, rest)" by simp
  have "length rest < length cs"
  proof (cases cs)
    case Nil
    then show ?thesis using e by simp
  next
    case (Cons e0 es)
    show ?thesis
    proof (cases "e0 = 117")
      case True
      then have "scan_unicode_escape es = Some (u, rest)" using e Cons by simp
      then have "length rest < length es"
        unfolding scan_unicode_escape_def
        by (simp split: list.splits option.splits if_splits) auto
      then show ?thesis using Cons by simp
    next
      case False
      then show ?thesis using e Cons by (auto split: option.splits)
    qed
  qed
  then show "(rest, c # cs) \<in> measure length" by simp
next
  fix c :: nat and cs :: ustring
  show "(cs, c # cs) \<in> measure length" by simp
qed

text \<open>
  Numbers. The scanner takes the longest run of the characters a JSON number is made of
  (after a number comes white space, a comma or a closing bracket) and reads it by the
  grammar of JSON numbers: a number with a fraction or an exponent is a float, the one
  that \<open>float\<close>, the parameter \<open>parse_float\<close>, makes of the literal; another number
  is an integer. The literals \<open>NaN\<close> and \<open>Infinity\<close> have no real value and are not
  read.
\<close>

definition is_digit :: "nat \<Rightarrow> bool" where
  "is_digit c \<longleftrightarrow> 48 \<le> c \<and> c \<le> 57"

definition is_number_char :: "nat \<Rightarrow> bool" where
  "is_number_char c \<longleftrightarrow> is_digit c \<or> c = 43 \<or> c = 45 \<or> c = 46 \<or> c = 101 \<or> c = 69"

definition digits_value :: "ustring \<Rightarrow> nat" where
  "digits_value ds = foldl (\<lambda>a d. 10 * a + (d - 48)) 0 ds"

definition parse_number :: "(ustring \<Rightarrow> real) \<Rightarrow> ustring \<Rightarrow> jscalar option" where
  "parse_number parse_float token =
     (let negative = (token \<noteq> [] \<and> hd token = 45);
          t1 = (if negative then tl token else token);
          int_digits = takeWhile is_digit t1;
          t2 = dropWhile is_digit t1;
          has_frac = (t2 \<noteq> [] \<and> hd t2 = 46);
          frac_digits = (if has_frac then takeWhile is_digit (tl t2) else []);
          t3 = (if has_frac then dropWhile is_digit (tl t2) else t2);
          has_exp = (t3 \<noteq> [] \<and> (hd t3 = 101 \<or> hd t3 = 69));
          t4 = (if has_exp then tl t3 else t3);
          t5 = (if has_exp \<and> t4 \<noteq> [] \<and> (hd t4 = 45 \<or> hd t4 = 43) then tl t4 else t4);
          exp_digits = (if has_exp then takeWhile is_digit t5 else []);
          t6 = (if has_exp then dropWhile is_digit t5 else t5)
      in if int_digits = [] \<or> (length int_digits > 1 \<and> hd int_digits = 48) then None
         else if has_frac \<and> frac_digits = [] then None
         else if has_exp \<and> exp_digits = [] then None
         else if t6 \<noteq> [] then None
         else if \<not> has_frac \<and> \<not> has_exp then
           Some (JInt (if negative then - int (digits_value int_digits)
                       else int (digits_value int_digits)))
         else Some (JFloat (parse_float token)))"

definition scan_number :: "(ustring \<Rightarrow> real) \<Rightarrow> ustring \<Rightarrow> (jscalar \<times> ustring) option" where
  "scan_number parse_float text0 =
     (case parse_number parse_float (takeWhile is_number_char text0) of
        None \<Rightarrow> None
      | Some v \<Rightarrow> Some (v, dropWhile is_number_char text0))"

definition scan_scalar :: "(ustring \<Rightarrow> real) \<Rightarrow> ustring \<Rightarrow> (jscalar \<times> ustring) option" where
  "scan_scalar parse_float text0 =
     (case text0 of
        [] \<Rightarrow> None
      | c # cs \<Rightarrow>
          if c = 34 then (case scanstring cs of None \<Rightarrow> None | Some (s, rest) \<Rightarrow> Some (JStr s, rest))
          else scan_number parse_float text0)"

definition scan_string_value :: "ustring \<Rightarrow> (ustring \<times> ustring) option" where
  "scan_string_value text0 =
     (case text0 of [] \<Rightarrow> None | c # cs \<Rightarrow> if c = 34 then scanstring cs else None)"

text \<open>
  The loop of \<open>JSONObject\<close> over the members of an object, entered after the opening
  quote of a key; \<open>pv\<close> scans a value. The loop runs once per member, and the fuel it
  is given is the length of the text.
\<close>

fun parse_members ::
  "(ustring \<Rightarrow> ('v \<times> ustring) option) \<Rightarrow> nat \<Rightarrow> ustring \<Rightarrow> ((ustring \<times> 'v) list \<times> ustring) option"
  where
  "parse_members pv 0 text0 = None"
| "parse_members pv (Suc fuel) text0 =
     (case scanstring text0 of
        None \<Rightarrow> None
      | Some (key, t1) \<Rightarrow>
          (case skip_ws t1 of
             [] \<Rightarrow> None
           | c # t2 \<Rightarrow>
               if c \<noteq> 58 then None
               else
                 (case pv (skip_ws t2) of
                    None \<Rightarrow> None
                  | Some (v, t3) \<Rightarrow>
                      (case skip_ws t3 of
                         [] \<Rightarrow> None
                       | d # t4 \<Rightarrow>
                           if d = 125 then Some ([(key, v)], t4)
                           else if d = 44 then
                             (case skip_ws t4 of
                                [] \<Rightarrow> None
                              | q # t5 \<Rightarrow>
                                  if q = 34 then
                                    (case parse_members pv fuel t5 of
                                       None \<Rightarrow> None
                                     | Some (ms, rest) \<Rightarrow> Some ((key, v) # ms, rest))
                                  else None)
                           else None))))"

definition parse_object ::
  "(ustring \<Rightarrow> ('v \<times> ustring) option) \<Rightarrow> ustring \<Rightarrow> ((ustring \<times> 'v) list \<times> ustring) option"
  where
  "parse_object pv text0 =
     (case text0 of
        [] \<Rightarrow> None
      | c # t0 \<Rightarrow>
          if c \<noteq> 123 then None
          else
            (case skip_ws t0 of
               [] \<Rightarrow> None
             | q # t1 \<Rightarrow>
                 if q = 125 then Some ([], t1)
                 else if q = 34 then parse_members pv (length t1) t1
                 else None))"

text \<open>
  \<open>json.loads\<close> on a document that is one object: white space, the object, white space
  and the end of the text.
\<close>

definition json_loads ::
  "(ustring \<Rightarrow> ('v \<times> ustring) option) \<Rightarrow> ustring \<Rightarrow> (ustring \<times> 'v) list option" where
  "json_loads pv text0 =
     (case parse_object pv (skip_ws text0) of
        None \<Rightarrow> None
      | Some (ms, rest) \<Rightarrow> if skip_ws rest = [] then Some ms else None)"

text \<open>
  A confidence pattern from the members of its object: the three keys, in any order, an
  integer count, a string, and a number for the average.
\<close>

definition pattern_of_fields :: "(ustring \<times> jscalar) list \<Rightarrow> confidence_pattern option" where
  "pattern_of_fields obj =
     (let d = dict_of_members obj in
      if length d \<noteq> 3 then None
      else
        (case dict_get d key_count of
           Some (JInt c) \<Rightarrow>
             (case dict_get d key_first_seen of
                Some (JStr f) \<Rightarrow>
                  (case dict_get d key_avg_confidence of
                     Some (JFloat x) \<Rightarrow>
                       Some \<lparr>avg_confidence = x, count = c, first_seen = f\<rparr>
                   | Some (JInt n) \<Rightarrow>
                       Some \<lparr>avg_confidence = of_int n, count = c, first_seen = f\<rparr>
                   | _ \<Rightarrow> None)
              | _ \<Rightarrow> None)
         | _ \<Rightarrow> None))"

definition scan_pattern ::
  "(ustring \<Rightarrow> real) \<Rightarrow> ustring \<Rightarrow> (confidence_pattern \<times> ustring) option" where
  "scan_pattern parse_float text0 =
     (case parse_object (scan_scalar parse_float) text0 of
        None \<Rightarrow> None
      | Some (obj, rest) \<Rightarrow>
          (case pattern_of_fields obj of None \<Rightarrow> None | Some p \<Rightarrow> Some (p, rest)))"

subsection \<open>The four persistence functions on texts\<close>

text \<open>
  The two files as texts; \<open>None\<close> is a file that does not exist. The save functions
  give the exception that leaves them, if any, and the files; the load functions read
  the files and nothing else. A text that \<open>json.load\<close> refuses gives the empty
  dictionary, and so does, in this typed model, a document that is not a dictionary of
  the store's shape.
\<close>

record disk =
  learned_corrections_text :: "ustring option"
  confidence_patterns_text :: "ustring option"

definition save_learned_corrections_text :: "integration \<Rightarrow> disk \<Rightarrow> py_exception option \<times> disk"
  where
  "save_learned_corrections_text s d =
     (let (raised, written) = write_chunks (corrections_chunks (learned_corrections s)) []
      in (raised, d\<lparr>learned_corrections_text := Some written\<rparr>))"

definition load_learned_corrections_text :: "disk \<Rightarrow> (ustring, ustring) dict" where
  "load_learned_corrections_text d =
     (case learned_corrections_text d of
        None \<Rightarrow> []
      | Some text0 \<Rightarrow>
          (case json_loads scan_string_value text0 of
             None \<Rightarrow> []
           | Some ms \<Rightarrow> dict_of_members ms))"

definition save_confidence_patterns_text ::
  "(real \<Rightarrow> ustring) \<Rightarrow> integration \<Rightarrow> disk \<Rightarrow> py_exception option \<times> disk" where
  "save_confidence_patterns_text float_repr s d =
     (let (raised, written) =
            write_chunks (patterns_chunks float_repr (confidence_patterns s)) []
      in (raised, d\<lparr>confidence_patterns_text := Some written\<rparr>))"

definition load_confidence_patterns_text ::
  "(ustring \<Rightarrow> real) \<Rightarrow> disk \<Rightarrow> (ustring, confidence_pattern) dict" where
  "load_confidence_patterns_text parse_float d =
     (case confidence_patterns_text d of
        None \<Rightarrow> []
      | Some text0 \<Rightarrow>
          (case json_loads (scan_pattern parse_float) text0 of
             None \<Rightarrow> []
           | Some ms \<Rightarrow> dict_of_members ms))"

text \<open>
  The file of the first model that a text stands for: the object \<open>json.load\<close> reads
  from it.
\<close>

definition corrections_file_of :: "disk \<Rightarrow> (ustring \<times> ustring) list json_file" where
  "corrections_file_of d =
     (case learned_corrections_text d of
        None \<Rightarrow> Missing
      | Some text0 \<Rightarrow>
          (case json_loads scan_string_value text0 of None \<Rightarrow> Corrupt | Some ms \<Rightarrow> Doc ms))"

definition patterns_file_of ::
  "(ustring \<Rightarrow> real) \<Rightarrow> disk \<Rightarrow> (ustring \<times> confidence_pattern) list json_file" where
  "patterns_file_of parse_float d =
     (case confidence_patterns_text d of
        None \<Rightarrow> Missing
      | Some text0 \<Rightarrow>
          (case json_loads (scan_pattern parse_float) text0 of
             None \<Rightarrow> Corrupt | Some ms \<Rightarrow> Doc ms))"

subsection \<open>Notions used to state the round trip\<close>

text \<open>The strings of the store can be encoded in UTF-8.\<close>

definition encodable :: "ustring \<Rightarrow> bool" where
  "encodable s = list_all utf8_encodable s"

definition encodable_store :: "integration \<Rightarrow> bool" where
  "encodable_store s \<longleftrightarrow>
     list_all (\<lambda>(k, v). encodable k \<and> encodable v) (learned_corrections s)
     \<and> list_all (\<lambda>(k, p). encodable k \<and> encodable (first_seen p)) (confidence_patterns s)"

text \<open>
  \<open>lit\<close> is a float literal that \<open>float\<close> reads as \<open>x\<close>. This is what
  \<open>float.__repr__\<close> gives for a finite float \<open>x\<close>: a literal with a fraction or an
  exponent that reads back as the same float.
\<close>

definition float_literal :: "(ustring \<Rightarrow> real) \<Rightarrow> ustring \<Rightarrow> real \<Rightarrow> bool" where
  "float_literal parse_float lit x \<longleftrightarrow>
     lit \<noteq> [] \<and> list_all is_number_char lit
     \<and> parse_number parse_float lit = Some (JFloat x)"

definition floats_printable ::
  "(real \<Rightarrow> ustring) \<Rightarrow> (ustring \<Rightarrow> real) \<Rightarrow> integration \<Rightarrow> bool" where
  "floats_printable float_repr parse_float s \<longleftrightarrow>
     list_all (\<lambda>(k, p). float_literal parse_float (float_repr (avg_confidence p)) (avg_confidence p))
       (confidence_patterns s)"

text \<open>
  A scanner of values reads the values of a list of members back: after the text of a
  value, before a comma or a line feed, it gives the value and the rest.
\<close>

definition reads_back ::
  "(ustring \<Rightarrow> ('v \<times> ustring) option) \<Rightarrow> ('v \<Rightarrow> ustring list) \<Rightarrow> (ustring \<times> 'v) list \<Rightarrow> bool"
  where
  "reads_back pv vc ms \<longleftrightarrow>
     (\<forall>(k, v)\<in>set ms.
        concat (vc v) \<noteq> [] \<and> \<not> is_json_ws (hd (concat (vc v)))
        \<and> (\<forall>t. t \<noteq> [] \<and> (hd t = 44 \<or> hd t = 10) \<longrightarrow> pv (concat (vc v) @ t) = Some (v, t)))"

subsection \<open>Sample data for the round trip\<close>

text \<open>
  A printer and a reader of floats that know 0.3 and 0.5, and a disk without files.
\<close>

definition sample_float_repr :: "real \<Rightarrow> ustring" where
  "sample_float_repr x = (if x = 3/10 then [48, 46, 51] else if x = 1/2 then [48, 46, 53]
                          else [48, 46, 48])"

definition sample_parse_float :: "ustring \<Rightarrow> real" where
  "sample_parse_float lit = (if lit = [48, 46, 51] then 3/10 else if lit = [48, 46, 53] then 1/2
                             else 0)"

definition empty_disk :: disk where
  "empty_disk = \<lparr>learned_corrections_text = None, confidence_patterns_text = None\<rparr>"

text \<open>
  A store whose only correction has the lone surrogate U+D800 as its key, and a store
  with a quote, a backslash, a line feed, the control character U+0001 and a non-ASCII
  letter in its strings.
\<close>

definition surrogate_state :: integration where
  "surrogate_state = \<lparr>learned_corrections = [([55296, 97, 98], [97, 98, 99])],
     confidence_patterns = [], processing_stats = initial_stats,
     learned_corrections_file = Missing, confidence_patterns_file = Missing\<rparr>"

definition escaped_state :: integration where
  "escaped_state = \<lparr>learned_corrections = [([34, 92, 10], [1, 20826]), ([97], [])],
     confidence_patterns =
       [(token_toshu, \<lparr>avg_confidence = 3/10, count = 12, first_seen = [50, 48, 50, 53]\<rparr>),
        ([98], \<lparr>avg_confidence = 1/2, count = 1, first_seen = []\<rparr>)],
     processing_stats = initial_stats,
     learned_corrections_file = Missing, confidence_patterns_file = Missing\<rparr>"

section \<open>Properties of the pattern store\<close>

subsection \<open>Dictionaries\<close>

lemma map_of_dict_set: "map_of (dict_set k v d) = (map_of d)(k \<mapsto> v)"
  by (induction d) auto

lemma dict_get_dict_set: "dict_get (dict_set k v d) k' = (if k' = k then Some v else dict_get d k')"
  by (simp add: dict_get_def map_of_dict_set)


lemma dict_set_new: "\<not> dict_contains k d \<Longrightarrow> dict_set k v d = d @ [(k, v)]"
  by (induction d) (auto simp: dict_contains_def dict_keys_def)

lemma dict_set_keys_known: "dict_contains k d \<Longrightarrow> dict_keys (dict_set k v d) = dict_keys d"
  by (induction d) (auto simp: dict_contains_def dict_keys_def)


lemma dict_of_members_aux:
  "distinct (map fst (d @ ms)) \<Longrightarrow> foldl (\<lambda>d (k, v). dict_set k v d) d ms = d @ ms"
proof (induction ms arbitrary: d)
  case Nil then show ?case by simp
next
  case (Cons m ms)
  obtain k v where m: "m = (k, v)" by (cases m) auto
  have nc: "\<not> dict_contains k d" using Cons.prems by (auto simp: m dict_contains_def dict_keys_def)
  have "foldl (\<lambda>d (k, v). dict_set k v d) (d @ [(k, v)]) ms = (d @ [(k, v)]) @ ms"
    by (rule Cons.IH) (use Cons.prems in \<open>simp add: m\<close>)
  then show ?case using nc by (simp add: m dict_set_new)
qed

lemma dict_of_members_distinct: "distinct (dict_keys d) \<Longrightarrow> dict_of_members d = d"
  using dict_of_members_aux [of "[]" d] by (simp add: dict_of_members_def dict_keys_def)

subsection \<open>The confidence loop\<close>

lemma decayed_append: "decayed r (xs @ ys) = decayed (decayed r xs) ys"
  by (induction r xs rule: decayed.induct) auto

lemma summary_learn_confidence:
  "summary (fst (learn_confidence now i ws (cp, n))) t = decayed (summary cp t) (observed t ws)"
proof (induction ws arbitrary: cp n i)
  case Nil
  then show ?case by (simp add: observed_def)
next
  case (Cons wi ws)
  show ?case
  proof (cases "dict_get cp (py_strip (word wi))")
    case None
    then show ?thesis
      using Cons.IH by (auto simp: Let_def observed_def summary_def dict_get_dict_set)
  next
    case (Some p)
    then show ?thesis
      using Cons.IH by (auto simp: Let_def observed_def summary_def dict_get_dict_set)
  qed
qed

lemma confidence_patterns_learn:
  "confidence_patterns (learn_from_correction now ot ct ws s) =
     fst (learn_confidence now 0 ws (confidence_patterns s,
        snd (learn_words (zip (py_split ot) (py_split ct)) (learned_corrections s, 0))))"
  by (simp add: learn_from_correction_def Let_def save_confidence_patterns_def
      save_learned_corrections_def split: prod.splits)

lemma summary_learn_from_correction:
  "summary (confidence_patterns (learn_from_correction now ot ct ws s)) t =
     decayed (summary (confidence_patterns s) t) (observed t ws)"
  by (simp add: confidence_patterns_learn summary_learn_confidence)

lemma summary_learn_calls:
  "summary (confidence_patterns (learn_calls cs s)) t =
     decayed (summary (confidence_patterns s) t) (observations t cs)"
proof (induction cs arbitrary: s)
  case Nil
  then show ?case by (simp add: observations_def)
next
  case (Cons c cs)
  obtain now ot ct ws where c: "c = (now, ot, ct, ws)" by (cases c) auto
  have "observations t (c # cs) = observed t ws @ observations t cs"
    by (simp add: observations_def c)
  then show ?case
    by (simp add: c Cons.IH summary_learn_from_correction decayed_append)
qed

lemma learn_calls_append: "learn_calls (cs @ ds) s = learn_calls ds (learn_calls cs s)"
  by (induction cs arbitrary: s) auto

lemma summary_absent: "\<not> dict_contains t d \<Longrightarrow> summary d t = None"
  by (simp add: summary_def dict_get_def dict_contains_def dict_keys_def map_of_eq_None_iff)

text \<open>
  Claim C1 (confidence decay). A token that the store does not know is observed with
  confidence \<open>c1\<close> and then with \<open>c2\<close>, in one call or over several: the stored
  pattern then has the average \<open>(c1 + c2) / 2\<close> and the count 2. After one more
  observation \<open>c3\<close> it has the average \<open>((c1 + c2) / 2 + c3) / 2\<close> and the count 3;
  this is the arithmetic mean of the three only when \<open>c3\<close> is the mean of the first two.
  The token of an observation is the stripped word; other tokens may be observed in
  between.
\<close>

theorem confidence_decay:
  assumes "\<not> dict_contains t (confidence_patterns s)"
    and "observations t cs = [c1, c2]"
    and "observations t ds = [c3]"
  shows "summary (confidence_patterns (learn_calls cs s)) t = Some ((c1 + c2) / 2, 2)
       \<and> summary (confidence_patterns (learn_calls (cs @ ds) s)) t
           = Some (((c1 + c2) / 2 + c3) / 2, 3)
       \<and> ((((c1 + c2) / 2 + c3) / 2 = (c1 + c2 + c3) / 3) = (c3 = (c1 + c2) / 2))"
proof -
  have a: "summary (confidence_patterns s) t = None"
    using assms(1) by (rule summary_absent)
  have 1: "summary (confidence_patterns (learn_calls cs s)) t = Some ((c1 + c2) / 2, 2)"
    by (simp add: summary_learn_calls a assms(2))
  have 2: "summary (confidence_patterns (learn_calls (cs @ ds) s)) t = Some (((c1 + c2) / 2 + c3) / 2, 3)"
    by (simp add: learn_calls_append summary_learn_calls [of ds] 1 assms(3))
  have 3: "((((c1 + c2) / 2 + c3) / 2 = (c1 + c2 + c3) / 3) = (c3 = (c1 + c2) / 2))"
    by (auto simp: field_simps)
  from 1 2 3 show ?thesis by blast
qed

theorem confidence_decay_witness:
  "\<not> dict_contains token_toshu (confidence_patterns (init_integration Missing Missing))
   \<and> observations token_toshu [seen_with (3/10), seen_with (5/10)] = [3/10, 5/10]
   \<and> observations token_toshu [seen_with (7/10)] = [7/10]
   \<and> summary (confidence_patterns
        (learn_calls [seen_with (3/10), seen_with (5/10)] (init_integration Missing Missing)))
        token_toshu = Some (2/5, 2)
   \<and> summary (confidence_patterns
        (learn_calls ([seen_with (3/10), seen_with (5/10)] @ [seen_with (7/10)])
           (init_integration Missing Missing))) token_toshu = Some (11/20, 3)"
proof -
  have a: "\<not> dict_contains token_toshu (confidence_patterns (init_integration Missing Missing))"
    by (simp add: init_integration_def load_confidence_patterns_def dict_contains_def
        dict_keys_def Let_def)
  have b: "observations token_toshu [seen_with (3/10), seen_with (5/10)] = [3/10, 5/10]"
    by (simp add: observations_def observed_def seen_with_def token_toshu_def py_strip_def
        py_isspace_def)
  have c: "observations token_toshu [seen_with (7/10)] = [7/10]"
    by (simp add: observations_def observed_def seen_with_def token_toshu_def py_strip_def
        py_isspace_def)
  show ?thesis using a b c confidence_decay [OF a b c] by simp
qed

subsection \<open>The token loop and the learning count\<close>

lemma first_by_key_seen_cong:
  "set seen = set seen' \<Longrightarrow> first_by_key seen ps = first_by_key seen' ps"
proof (induction ps arbitrary: seen seen')
  case Nil then show ?case by simp
next
  case (Cons p ps)
  have "first_by_key (fst p # seen) ps = first_by_key (fst p # seen') ps"
    by (rule Cons.IH) (simp add: Cons.prems)
  then show ?case using Cons.prems Cons.IH [of seen seen'] by simp
qed

lemma learn_words_fst:
  "fst (learn_words ps (lc, n)) = lc @ first_by_key (dict_keys lc) (filter qualifies ps)"
proof (induction ps arbitrary: lc n)
  case Nil then show ?case by simp
next
  case (Cons p ps)
  obtain ow cw where p: "p = (ow, cw)" by (cases p) auto
  show ?case
  proof (cases "qualifies p")
    case False
    then show ?thesis using Cons.IH [of lc n] by (auto simp: p qualifies_def)
  next
    case q: True
    show ?thesis
    proof (cases "dict_contains ow lc")
      case True
      then show ?thesis using q Cons.IH [of lc n]
        by (auto simp: p qualifies_def dict_contains_def)
    next
      case False
      have k: "first_by_key (dict_keys (lc @ [(ow, cw)])) (filter qualifies ps)
             = first_by_key (ow # dict_keys lc) (filter qualifies ps)"
        by (rule first_by_key_seen_cong) (auto simp: dict_keys_def)
      have c: "ow \<noteq> cw \<and> length ow > 2 \<and> length cw > 2"
        using q by (simp add: p qualifies_def)
      have "fst (learn_words (p # ps) (lc, n)) = fst (learn_words ps (lc @ [(ow, cw)], n + 1))"
        using c False by (simp add: p dict_set_new)
      also have "\<dots> = (lc @ [(ow, cw)]) @ first_by_key (ow # dict_keys lc) (filter qualifies ps)"
        by (simp only: Cons.IH k)
      also have "\<dots> = lc @ first_by_key (dict_keys lc) (filter qualifies (p # ps))"
        using q False by (simp add: p dict_contains_def)
      finally show ?thesis .
    qed
  qed
qed




lemma learned_corrections_learn:
  "learned_corrections (learn_from_correction now ot ct ws s) =
     fst (learn_words (zip (py_split ot) (py_split ct)) (learned_corrections s, 0))"
  by (simp add: learn_from_correction_def Let_def save_confidence_patterns_def
      save_learned_corrections_def split: prod.splits)


text \<open>
  Claim C5 (positional diff learning). The tokens of the raw and of the corrected text
  are paired by position (\<open>zip\<close> stops at the shorter list). The corrections after
  the call are the corrections before it, unchanged and in their order, followed by the
  qualifying pairs (tokens differ, both longer than 2) whose raw token was not a key
  when the pair was reached: not a key before the call, and not the raw token of an
  earlier qualifying pair. No existing key is overwritten.
\<close>

theorem positional_diff_learning:
  "learned_corrections (learn_from_correction now original_text corrected_text ws s) =
     learned_corrections s @
       first_by_key (dict_keys (learned_corrections s))
         (filter qualifies (zip (py_split original_text) (py_split corrected_text)))
   \<and> (\<forall>k v. dict_get (learned_corrections s) k = Some v \<longrightarrow>
         dict_get (learned_corrections (learn_from_correction now original_text corrected_text ws s)) k
           = Some v)"
  by (simp add: learned_corrections_learn learn_words_fst dict_get_def)

theorem positional_diff_learning_witness:
  "dict_get (learned_corrections sample_state) [97, 98, 99] = Some [120, 121, 122]
   \<and> dict_get (learned_corrections
        (learn_from_correction (\<lambda>i. []) sample_raw sample_corrected [] sample_state)) [97, 98, 99]
       = Some [120, 121, 122]
   \<and> learned_corrections
        (learn_from_correction (\<lambda>i. []) sample_raw sample_corrected [] sample_state)
       = [([97, 98, 99], [120, 121, 122]), ([100,101,102,103], [100,101,102,104]),
          ([107,108,109], [107,108,109,110])]"
  using positional_diff_learning [of "\<lambda>i. []" sample_raw sample_corrected "[]" sample_state]
  by (simp add: sample_state_def sample_raw_def sample_corrected_def py_split_def
      py_isspace_def qualifies_def dict_keys_def dict_get_def)




section \<open>Properties of the correction pipeline\<close>

subsection \<open>Replacement\<close>

lemma py_replace_empty: "old \<noteq> [] \<Longrightarrow> py_replace old new [] = []"
  by (subst py_replace.simps) simp

lemma py_replace_match:
  "old \<noteq> [] \<Longrightarrow> take (length old) (c # cs) = old \<Longrightarrow>
     py_replace old new (c # cs) = new @ py_replace old new (drop (length old) (c # cs))"
  by (subst py_replace.simps) simp

lemma py_replace_skip:
  "old \<noteq> [] \<Longrightarrow> take (length old) (c # cs) \<noteq> old \<Longrightarrow>
     py_replace old new (c # cs) = c # py_replace old new cs"
  by (subst py_replace.simps) simp

lemma py_replace_absent: "\<not> py_in old s \<Longrightarrow> py_replace old new s = s"
proof (induction s)
  case Nil
  then show ?case by (simp add: py_replace_empty)
next
  case (Cons c cs)
  then have "old \<noteq> []" "take (length old) (c # cs) \<noteq> old" "\<not> py_in old cs"
    by auto
  then show ?case using Cons.IH by (simp add: py_replace_skip)
qed

subsection \<open>The rewrite oracle and the learning step\<close>

lemma call_claude_api_from_exhausted:
  "(\<And>a. attempt \<le> a \<Longrightarrow> a < attempt + n \<Longrightarrow> is_failure (oracle a)) \<Longrightarrow>
     call_claude_api_from oracle attempt n = Inr None"
proof (induction n arbitrary: attempt)
  case 0
  then show ?case by simp
next
  case (Suc n)
  have f: "is_failure (oracle attempt)" using Suc.prems [of attempt] by simp
  have r: "call_claude_api_from oracle (attempt + 1) n = Inr None"
    by (rule Suc.IH) (use Suc.prems in auto)
  show ?case using f r by (cases "oracle attempt") (simp_all add: is_failure_def)
qed

lemma call_claude_api_exhausted:
  "\<forall>a < max_retries. is_failure (oracle a) \<Longrightarrow> call_claude_api oracle max_retries = Inr None"
  unfolding call_claude_api_def by (rule call_claude_api_from_exhausted) simp

lemma transcribe_learns:
  assumes "call_claude_api oracle 3 = Inr (Some t)" and "t \<noteq> []"
  shows "confidence_patterns (snd (transcribe_with_claude_correction re_sub now elapsed (Inr wr) oracle s))
      = confidence_patterns (learn_from_correction now (w_text wr) t (collect_word_data wr) s)
    \<and> learned_corrections (snd (transcribe_with_claude_correction re_sub now elapsed (Inr wr) oracle s))
      = learned_corrections (learn_from_correction now (w_text wr) t (collect_word_data wr) s)"
  using assms
  by (simp add: transcribe_with_claude_correction_def Let_def initial_result_def
      count_success_def add_processing_time_def count_correction_def)

text \<open>
  Claim C6 (graceful rewrite degradation). When each of the three attempts on the rewrite
  oracle fails, \<open>_call_claude_api\<close> gives no result, and a run whose recognition
  succeeded completes with \<open>success\<close> and without an error: its corrected text is the
  pattern-corrected text (clean, then the built-in dictionary, then the learned
  patterns), and the two dictionaries and their files are as before the run.
\<close>

theorem graceful_rewrite_degradation:
  assumes "\<forall>a < 3. is_failure (oracle a)"
  shows "call_claude_api oracle 3 = Inr None
    \<and> success (fst (transcribe_with_claude_correction re_sub now elapsed (Inr wr) oracle s))
    \<and> error (fst (transcribe_with_claude_correction re_sub now elapsed (Inr wr) oracle s)) = None
    \<and> \<not> claude_applied (fst (transcribe_with_claude_correction re_sub now elapsed (Inr wr) oracle s))
    \<and> corrected_transcript (fst (transcribe_with_claude_correction re_sub now elapsed (Inr wr) oracle s))
        = apply_whisper_patterns s (clean_text_basic re_sub (w_text wr))
    \<and> learned_corrections (snd (transcribe_with_claude_correction re_sub now elapsed (Inr wr) oracle s))
        = learned_corrections s
    \<and> confidence_patterns (snd (transcribe_with_claude_correction re_sub now elapsed (Inr wr) oracle s))
        = confidence_patterns s
    \<and> learned_corrections_file (snd (transcribe_with_claude_correction re_sub now elapsed (Inr wr) oracle s))
        = learned_corrections_file s
    \<and> confidence_patterns_file (snd (transcribe_with_claude_correction re_sub now elapsed (Inr wr) oracle s))
        = confidence_patterns_file s"
proof -
  have n: "call_claude_api oracle 3 = Inr None"
    using assms by (rule call_claude_api_exhausted)
  show ?thesis
    by (simp add: n transcribe_with_claude_correction_def Let_def initial_result_def
        count_success_def add_processing_time_def)
qed

theorem graceful_rewrite_degradation_witness:
  "is_failure (failing_oracle 0) \<and> is_failure (failing_oracle 1)
   \<and> is_failure (failing_oracle 2)
   \<and> success (fst (transcribe_with_claude_correction (\<lambda>p r t. t) (\<lambda>i. []) 1
         (Inr confident_run) failing_oracle sample_state))
   \<and> corrected_transcript (fst (transcribe_with_claude_correction (\<lambda>p r t. t) (\<lambda>i. []) 1
         (Inr confident_run) failing_oracle sample_state)) = [120, 121, 122]
   \<and> confidence_patterns (snd (transcribe_with_claude_correction (\<lambda>p r t. t) (\<lambda>i. []) 1
         (Inr confident_run) failing_oracle sample_state)) = confidence_patterns sample_state"
proof -
  have a: "\<forall>a < 3. is_failure (failing_oracle a)"
    by (simp add: failing_oracle_def is_failure_def)
  have b: "apply_whisper_patterns sample_state (clean_text_basic (\<lambda>p r t. t) (w_text confident_run))
      = [120, 121, 122]"
    by (simp add: apply_whisper_patterns_def apply_learned_patterns_def clean_text_basic_def
        confident_run_def sample_state_def whisper_patterns_def py_strip_def py_isspace_def
        py_replace_absent py_replace_match py_replace_empty)
  have c: "is_failure (failing_oracle 0) \<and> is_failure (failing_oracle 1)
      \<and> is_failure (failing_oracle 2)"
    by (simp add: failing_oracle_def is_failure_def)
  show ?thesis
    using c graceful_rewrite_degradation [OF a, of "\<lambda>p r t. t" "\<lambda>i. []" 1 confident_run sample_state]
    by (simp add: b)
qed

text \<open>
  Claim C3 (learn-step argument) does not hold of the code: the learning step is called
  with \<open>word_level_data\<close>, that is with every recognised word, and not with the words
  below 0.5. In the run below the only word has confidence 0.9, the list of
  low-confidence words is empty, the oracle gives a text, and the store gets a confidence
  pattern with the average 0.9.
\<close>

theorem learn_step_receives_all_words:
  "call_claude_api (\<lambda>a. Ok200 [97, 98, 99]) 3 = Inr (Some [97, 98, 99])
   \<and> low_confidence_words (collect_word_data confident_run) = []
   \<and> dict_get (confidence_patterns (snd (transcribe_with_claude_correction re_sub (\<lambda>i. [])
        1 (Inr confident_run) (\<lambda>a. Ok200 [97, 98, 99]) (init_integration Missing Missing))))
        [97, 98, 99]
     = Some \<lparr>avg_confidence = 9/10, count = 1, first_seen = []\<rparr>"
proof -
  have a: "call_claude_api (\<lambda>a. Ok200 [97, 98, 99]) 3 = Inr (Some [97, 98, 99])"
    by (simp add: call_claude_api_def numeral_3_eq_3 py_strip_def py_isspace_def)
  have w: "collect_word_data confident_run
      = [\<lparr>word = [97, 98, 99], confidence = 9/10, start_time = 0, end_time = 1\<rparr>]"
    by (simp add: collect_word_data_def confident_run_def or_default_def)
  have l: "low_confidence_words (collect_word_data confident_run) = []"
    by (simp add: w low_confidence_words_def)
  have t: "w_text confident_run = [97, 98, 99]" by (simp add: confident_run_def)
  have c: "confidence_patterns (learn_from_correction (\<lambda>i. []) [97, 98, 99] [97, 98, 99]
       [\<lparr>word = [97, 98, 99], confidence = 9/10, start_time = 0, end_time = 1\<rparr>]
       (init_integration Missing Missing))
     = [([97, 98, 99], \<lparr>avg_confidence = 9/10, count = 1, first_seen = []\<rparr>)]"
    by (simp add: confidence_patterns_learn init_integration_def Let_def
        load_learned_corrections_def load_confidence_patterns_def dict_get_def py_strip_def
        py_isspace_def)
  have k: "dict_get (confidence_patterns (snd (transcribe_with_claude_correction re_sub (\<lambda>i. [])
        1 (Inr confident_run) (\<lambda>a. Ok200 [97, 98, 99]) (init_integration Missing Missing))))
        [97, 98, 99]
     = Some \<lparr>avg_confidence = 9/10, count = 1, first_seen = []\<rparr>"
    using transcribe_learns [OF a, of re_sub "\<lambda>i. []" 1 confident_run "init_integration Missing Missing"]
    by (simp add: w t c dict_get_def)
  from a l k show ?thesis by blast
qed

section \<open>Properties of the category classifier\<close>

subsection \<open>The first maximum\<close>

lemma max_from_first:
  "\<exists>pre post. x # xs = pre @ max_from f x xs # post
      \<and> (\<forall>y\<in>set pre. f y < f (max_from f x xs))
      \<and> (\<forall>y\<in>set post. f y \<le> f (max_from f x xs))"
proof (induction xs arbitrary: x)
  case Nil
  show ?case by (rule exI [of _ "[]"], rule exI [of _ "[]"]) simp
next
  case (Cons y ys)
  show ?case
  proof (cases "f y > f x")
    case True
    obtain pre post where d: "y # ys = pre @ max_from f y ys # post"
      and l: "\<forall>z\<in>set pre. f z < f (max_from f y ys)"
      and r: "\<forall>z\<in>set post. f z \<le> f (max_from f y ys)"
      using Cons.IH [of y] by blast
    have "y \<in> set (y # ys)" by simp
    then have "y \<in> set (pre @ max_from f y ys # post)" by (simp only: d)
    then have "f y \<le> f (max_from f y ys)" using l r by (auto simp: less_imp_le)
    then have x: "f x < f (max_from f y ys)" using True by simp
    have "x # y # ys = (x # pre) @ max_from f y ys # post" using d by simp
    moreover have "\<forall>z\<in>set (x # pre). f z < f (max_from f y ys)" using l x by simp
    ultimately show ?thesis using True r by (simp only: max_from.simps if_True) blast
  next
    case False
    obtain pre post where d: "x # ys = pre @ max_from f x ys # post"
      and l: "\<forall>z\<in>set pre. f z < f (max_from f x ys)"
      and r: "\<forall>z\<in>set post. f z \<le> f (max_from f x ys)"
      using Cons.IH [of x] by blast
    have m: "max_from f x (y # ys) = max_from f x ys" using False by simp
    show ?thesis
    proof (cases pre)
      case Nil
      have c: "x # ys = max_from f x ys # post" using d unfolding Nil append_Nil .
      from c have e1: "x = max_from f x ys" by (rule list.inject [THEN iffD1, THEN conjunct1])
      from c have e2: "ys = post" by (rule list.inject [THEN iffD1, THEN conjunct2])
      have yx: "f y \<le> f (max_from f x ys)" using False e1 by simp
      have "x # y # ys = [] @ max_from f x ys # (y # post)"
        by (metis e1 e2 append_Nil)
      moreover have "\<forall>z\<in>set []. f z < f (max_from f x ys)" by simp
      moreover have "\<forall>z\<in>set (y # post). f z \<le> f (max_from f x ys)"
        using r yx by simp
      ultimately show ?thesis unfolding m by blast
    next
      case (Cons p pre')
      have c: "x # ys = p # (pre' @ max_from f x ys # post)" using d unfolding Cons append_Cons .
      from c have e1: "x = p" by (rule list.inject [THEN iffD1, THEN conjunct1])
      from c have e2: "ys = pre' @ max_from f x ys # post"
        by (rule list.inject [THEN iffD1, THEN conjunct2])
      have xl: "f x < f (max_from f x ys)" using l Cons e1 by simp
      have yl: "f y < f (max_from f x ys)" using xl False by simp
      have pl: "\<forall>z\<in>set pre'. f z < f (max_from f x ys)" using l Cons by simp
      have "x # y # ys = (x # y # pre') @ max_from f x ys # post"
        by (metis e2 append_Cons)
      moreover have "\<forall>z\<in>set (x # y # pre'). f z < f (max_from f x ys)"
        using xl yl pl by simp
      ultimately show ?thesis unfolding m using r by blast
    qed
  qed
qed

lemma max_from_zero: "max_from f x xs = r \<Longrightarrow> f r = 0 \<longleftrightarrow> (\<forall>y\<in>set (x # xs). f y = 0)"
proof -
  assume a: "max_from f x xs = r"
  obtain pre post where d: "x # xs = pre @ r # post"
    and l: "\<forall>y\<in>set pre. f y < f r" and u: "\<forall>y\<in>set post. f y \<le> f r"
    using max_from_first [of x xs f] a by auto
  have "set (x # xs) = set (pre @ r # post)" using d by simp
  then have s: "set (x # xs) = set pre \<union> {r} \<union> set post" by simp
  show ?thesis
  proof
    assume z: "f r = 0"
    show "\<forall>y\<in>set (x # xs). f y = 0" unfolding s using z l u by auto
  next
    assume "\<forall>y\<in>set (x # xs). f y = 0"
    then show "f r = 0" unfolding s by simp
  qed
qed

subsection \<open>Counting and scoring\<close>

lemma py_count_empty: "sub \<noteq> [] \<Longrightarrow> py_count sub [] = 0"
  by (subst py_count.simps) simp

lemma py_count_match:
  "sub \<noteq> [] \<Longrightarrow> take (length sub) (c # cs) = sub \<Longrightarrow>
     py_count sub (c # cs) = 1 + py_count sub (drop (length sub) (c # cs))"
  by (subst py_count.simps) simp

lemma py_count_skip:
  "sub \<noteq> [] \<Longrightarrow> take (length sub) (c # cs) \<noteq> sub \<Longrightarrow>
     py_count sub (c # cs) = py_count sub cs"
  by (subst py_count.simps) simp

lemma category_scores_keys:
  "map fst (category_scores lower text0) = dict_keys category_keywords"
  by (simp add: category_scores_def dict_keys_def Let_def case_prod_beta o_def)

lemma category_keywords_nonempty: "category_keywords \<noteq> []"
  by (simp add: category_keywords_def)

lemma category_scores_nonempty: "category_scores lower text0 \<noteq> []"
  using category_keywords_nonempty by (simp add: category_scores_def Let_def)

lemma folder_key_stripped:
  "dict_contains t category_folders \<Longrightarrow> py_strip t = t \<and> t \<noteq> []"
  by (auto simp: category_folders_def dict_contains_def dict_keys_def py_strip_def py_isspace_def)

subsection \<open>The fallback chain\<close>

lemma classify_valid_label:
  assumes "dict_contains (py_strip t) category_folders"
  shows "fst (classify_text lower (Ok200 t) text0 s) = Inr (py_strip t)"
proof -
  obtain x xs where c: "category_scores lower text0 = x # xs"
    using category_scores_nonempty [of lower text0] by (cases "category_scores lower text0") auto
  have n: "py_strip t \<noteq> []" using folder_key_stripped [OF assms] by simp
  obtain fb where f: "fallback_category lower text0 = Inr fb"
    by (cases "max_from id (snd x) (map snd xs) > 0")
      (simp_all add: fallback_category_def c py_max_by_def Let_def)
  show ?thesis using assms n
    by (simp add: classify_text_def f classify_with_claude_api_def Let_def)
qed

lemma classify_invalid_label:
  assumes "\<forall>t'. resp = Ok200 t' \<longrightarrow> \<not> dict_contains (py_strip t') category_folders"
  shows "fst (classify_text lower resp text0 s) = fallback_category lower text0"
proof -
  have n: "fst (classify_with_claude_api resp text0 s) = None"
    using assms by (cases resp) (simp_all add: classify_with_claude_api_def Let_def)
  show ?thesis
  proof (cases "fallback_category lower text0")
    case (Inl e)
    then show ?thesis by (simp add: classify_text_def)
  next
    case (Inr fb)
    then show ?thesis using n
      by (cases "classify_with_claude_api resp text0 s") (simp add: classify_text_def)
  qed
qed

lemma fallback_all_zero:
  assumes "\<forall>p\<in>set (category_scores lower text0). snd p = 0"
  shows "fallback_category lower text0 = Inr sonota"
proof -
  obtain x xs where c: "category_scores lower text0 = x # xs"
    using category_scores_nonempty [of lower text0] by (cases "category_scores lower text0") auto
  have "\<forall>y\<in>set (snd x # map snd xs). id y = 0" using assms c by auto
  then have "id (max_from id (snd x) (map snd xs)) = 0"
    using max_from_zero [of id "snd x" "map snd xs" "max_from id (snd x) (map snd xs)"] by blast
  then show ?thesis by (simp add: fallback_category_def c py_max_by_def Let_def)
qed

lemma fallback_first_maximum:
  assumes "\<exists>p\<in>set (category_scores lower text0). snd p > 0"
  shows "\<exists>pre c n post. category_scores lower text0 = pre @ (c, n) # post
      \<and> (\<forall>p\<in>set pre. snd p < n) \<and> (\<forall>p\<in>set post. snd p \<le> n) \<and> n > 0
      \<and> fallback_category lower text0 = Inr c"
proof -
  obtain x xs where c: "category_scores lower text0 = x # xs"
    using category_scores_nonempty [of lower text0] by (cases "category_scores lower text0") auto
  have "\<not> (\<forall>y\<in>set (snd x # map snd xs). id y = 0)" using assms c by auto
  then have "id (max_from id (snd x) (map snd xs)) \<noteq> 0"
    using max_from_zero [of id "snd x" "map snd xs" "max_from id (snd x) (map snd xs)"] by blast
  then have pos: "max_from id (snd x) (map snd xs) > 0" by simp
  have fb: "fallback_category lower text0 = Inr (fst (max_from snd x xs))"
    using pos by (simp add: fallback_category_def c py_max_by_def Let_def)
  obtain pre post where d: "x # xs = pre @ max_from snd x xs # post"
    and l: "\<forall>y\<in>set pre. snd y < snd (max_from snd x xs)"
    and u: "\<forall>y\<in>set post. snd y \<le> snd (max_from snd x xs)"
    using max_from_first [of x xs snd] by blast
  have "\<exists>q\<in>set (x # xs). snd q > 0" using assms unfolding c .
  then obtain q where q: "q \<in> set (x # xs)" "snd q > 0" by blast
  have "q \<in> set (pre @ max_from snd x xs # post)" using q(1) by (simp only: d)
  then have "snd q \<le> snd (max_from snd x xs)" using l u by (auto simp: less_imp_le)
  then have n: "snd (max_from snd x xs) > 0" using q(2) by simp
  have "category_scores lower text0
      = pre @ (fst (max_from snd x xs), snd (max_from snd x xs)) # post"
    using c d by simp
  then show ?thesis using l u n fb by blast
qed

lemma scores_xyz:
  "map snd (category_scores (\<lambda>x. x) word_xyz) = [0, 0, 0, 0, 0, 0, 0, 0, 0, 0, 0, 0, 0, 0]"
  by (simp add: category_scores_def category_keywords_def word_xyz_def
      py_count_empty py_count_skip)

lemma scores_meeting:
  "map snd (category_scores (\<lambda>x. x) text_meeting) = [1, 2, 0, 0, 0, 0, 0, 0, 0, 0, 0, 0, 0, 0]"
  by (simp add: category_scores_def category_keywords_def text_meeting_def
      py_count_empty py_count_skip py_count_match)

lemma fallback_xyz: "fallback_category (\<lambda>x. x) word_xyz = Inr sonota"
proof -
  have "\<forall>p\<in>set (category_scores (\<lambda>x. x) word_xyz). snd p = 0"
  proof
    fix p assume "p \<in> set (category_scores (\<lambda>x. x) word_xyz)"
    then have "snd p \<in> set (map snd (category_scores (\<lambda>x. x) word_xyz))" by simp
    then show "snd p = 0" by (simp only: scores_xyz) simp
  qed
  then show ?thesis by (rule fallback_all_zero)
qed

lemma fallback_meeting: "fallback_category (\<lambda>x. x) text_meeting = Inr category_tech"
proof -
  have k: "map fst (category_scores (\<lambda>x. x) text_meeting) = dict_keys category_keywords"
    by (rule category_scores_keys)
  have z: "category_scores (\<lambda>x. x) text_meeting
      = zip (dict_keys category_keywords) [1, 2, 0, 0, 0, 0, 0, 0, 0, 0, 0, 0, 0, 0]"
    using k scores_meeting by (metis zip_map_fst_snd)
  show ?thesis
    by (simp add: fallback_category_def z py_max_by_def dict_keys_def category_keywords_def
        category_tech_def)
qed

text \<open>
  Claim C7 (classifier fallback chain). \<open>classify_text\<close> never raises. When the
  oracle answers with a label that, stripped, is a key of \<open>category_folders\<close>, that
  label is the result, whatever the keyword scores are; a label that is exactly a key is
  returned as it is. When the oracle gives no valid label (another answer, an error
  status, an exception) the result is the keyword result: the scores follow the declared
  order of the categories; if every score is 0 the result is "other"; otherwise it is
  the first category whose score is the greatest, every category declared before it
  having a strictly smaller score.
\<close>

theorem classifier_fallback_chain:
  "(dict_contains (py_strip t) category_folders \<longrightarrow>
      fst (classify_text lower (Ok200 t) text0 s) = Inr (py_strip t))
   \<and> (dict_contains t2 category_folders \<longrightarrow>
      fst (classify_text lower (Ok200 t2) text0 s) = Inr t2)
   \<and> ((\<forall>t'. resp = Ok200 t' \<longrightarrow> \<not> dict_contains (py_strip t') category_folders) \<longrightarrow>
      fst (classify_text lower resp text0 s) = fallback_category lower text0)
   \<and> map fst (category_scores lower text0) = dict_keys category_keywords
   \<and> ((\<forall>p\<in>set (category_scores lower text1). snd p = 0) \<longrightarrow>
      fallback_category lower text1 = Inr sonota)
   \<and> ((\<exists>p\<in>set (category_scores lower text2). snd p > 0) \<longrightarrow>
      (\<exists>pre c n post. category_scores lower text2 = pre @ (c, n) # post
         \<and> (\<forall>p\<in>set pre. snd p < n) \<and> (\<forall>p\<in>set post. snd p \<le> n) \<and> n > 0
         \<and> fallback_category lower text2 = Inr c))"
proof -
  have b: "dict_contains t2 category_folders \<longrightarrow>
      fst (classify_text lower (Ok200 t2) text0 s) = Inr t2"
  proof
    assume a: "dict_contains t2 category_folders"
    then have e: "py_strip t2 = t2" using folder_key_stripped by blast
    then have "dict_contains (py_strip t2) category_folders" using a by simp
    then show "fst (classify_text lower (Ok200 t2) text0 s) = Inr t2"
      using classify_valid_label [of t2 lower text0 s] e by simp
  qed
  show ?thesis
    using b classify_valid_label [of t lower text0 s] classify_invalid_label [of resp lower text0 s]
      category_scores_keys [of lower text0] fallback_all_zero [of lower text1]
      fallback_first_maximum [of lower text2]
    by blast
qed

theorem classifier_fallback_chain_witness:
  "dict_contains (py_strip label_tech_padded) category_folders
   \<and> fst (classify_text (\<lambda>x. x) (Ok200 label_tech_padded) text_meeting
        (init_integration Missing Missing)) = Inr category_tech
   \<and> dict_contains category_tech category_folders
   \<and> fst (classify_text (\<lambda>x. x) (Ok200 category_tech) text_meeting
        (init_integration Missing Missing)) = Inr category_tech
   \<and> fst (classify_text (\<lambda>x. x) Request_exception text_meeting
        (init_integration Missing Missing)) = Inr category_tech
   \<and> map snd (category_scores (\<lambda>x. x) word_xyz) = [0, 0, 0, 0, 0, 0, 0, 0, 0, 0, 0, 0, 0, 0]
   \<and> fallback_category (\<lambda>x. x) word_xyz = Inr sonota
   \<and> map snd (category_scores (\<lambda>x. x) text_meeting) = [1, 2, 0, 0, 0, 0, 0, 0, 0, 0, 0, 0, 0, 0]
   \<and> fallback_category (\<lambda>x. x) text_meeting = Inr category_tech"
proof -
  have s: "py_strip label_tech_padded = category_tech"
    by (simp add: label_tech_padded_def category_tech_def py_strip_def py_isspace_def)
  have m: "dict_contains category_tech category_folders"
    by (simp add: dict_contains_def dict_keys_def category_folders_def category_tech_def)
  show ?thesis
    using classifier_fallback_chain [of label_tech_padded "\<lambda>x. x" text_meeting
        "init_integration Missing Missing" category_tech Request_exception word_xyz text_meeting]
    by (simp add: s m scores_xyz scores_meeting fallback_xyz fallback_meeting)
qed

section \<open>Properties of the retrieval index\<close>

subsection \<open>Search\<close>

lemma py_slice_to_length:
  "0 \<le> k \<Longrightarrow> length (py_slice_to k xs) = min (nat k) (length xs)"
  by (simp add: py_slice_to_def)

lemma py_slice_to_length_negative:
  "k < 0 \<Longrightarrow> length (py_slice_to k xs) = length xs - nat (- k)"
  by (simp add: py_slice_to_def)

lemma py_slice_to_sorted:
  "sorted_wrt R xs \<Longrightarrow> sorted_wrt R (py_slice_to k xs)"
  by (simp add: py_slice_to_def)

lemma sort_key_descending:
  "sorted_wrt (\<lambda>a b. snd b \<le> snd a) (sort_key (\<lambda>x. - snd x) (xs :: ('a \<times> real) list))"
proof -
  have "sorted (map (\<lambda>x. - snd x) (sort_key (\<lambda>x. - snd x) xs))" by (rule sorted_sort_key)
  then show ?thesis by (simp add: sorted_map)
qed

lemma ranked_properties:
  fixes sims :: "('a \<times> real) list"
  shows "sorted_wrt (\<lambda>a b. snd b \<le> snd a) (py_slice_to k (sort_key (\<lambda>x. - snd x) sims))"
    and "0 \<le> k \<Longrightarrow> length (py_slice_to k (sort_key (\<lambda>x. - snd x) sims)) = min (nat k) (length sims)"
    and "k < 0 \<Longrightarrow> length (py_slice_to k (sort_key (\<lambda>x. - snd x) sims)) = length sims - nat (- k)"
  by (simp_all add: py_slice_to_sorted sort_key_descending py_slice_to_length
      py_slice_to_length_negative)

text \<open>
  Claim C4 (search bound), as the code has it, for the search of both programs: for
  \<open>k \<ge> 0\<close> the result has \<open>min k n\<close> items, \<open>n\<close> being the size of the store; the
  similarities of the result never increase, for every \<open>k\<close>; the result is empty for
  an empty store and for \<open>k = 0\<close>. For \<open>k < 0\<close> the slice drops the last \<open>-k\<close>
  items of the ranking, so the result has \<open>n - (-k)\<close> items, or none if that is
  negative.
\<close>

theorem search_bound:
  "(0 \<le> top_k \<longrightarrow>
      length (search_similar encode cosine_similarity query top_k s)
        = min (nat top_k) (length (database s))
    \<and> length (poc_search_similar encode cosine_similarity query top_k db)
        = min (nat top_k) (length db))
   \<and> (k < 0 \<longrightarrow>
      length (search_similar encode cosine_similarity query k s)
        = length (database s) - nat (- k)
    \<and> length (poc_search_similar encode cosine_similarity query k db) = length db - nat (- k))
   \<and> sorted_wrt (\<lambda>a b. snd b \<le> snd a) (search_similar encode cosine_similarity query any_k s)
   \<and> sorted_wrt (\<lambda>a b. snd b \<le> snd a)
        (poc_search_similar encode cosine_similarity query any_k db)
   \<and> search_similar encode cosine_similarity query any_k (s\<lparr>database := []\<rparr>) = []
   \<and> poc_search_similar encode cosine_similarity query any_k [] = []
   \<and> search_similar encode cosine_similarity query 0 s = []
   \<and> poc_search_similar encode cosine_similarity query 0 db = []"
  by (simp add: search_similar_def poc_search_similar_def Let_def ranked_properties)
    (simp add: py_slice_to_def)

theorem search_bound_witness:
  "(0::int) \<le> 1 \<and> (- 1 :: int) < 0
   \<and> length (search_similar (\<lambda>q. [1]) first_coordinate [] 1 two_records) = 1
   \<and> length (search_similar (\<lambda>q. [1]) first_coordinate [] (- 1) two_records) = 1
   \<and> search_similar (\<lambda>q. [1]) first_coordinate [] 5 two_records
       = [(sample_entry 2 [3], 3), (sample_entry 1 [1], 1)]"
proof -
  have a: "search_similar (\<lambda>q. [1]) first_coordinate [] 5 two_records
       = [(sample_entry 2 [3], 3), (sample_entry 1 [1], 1)]"
    by (simp add: search_similar_def two_records_def py_slice_to_def first_coordinate_def
      sample_entry_def)
  have b: "length (database two_records) = 2" by (simp add: two_records_def)
  show ?thesis
    using search_bound [of 1 "\<lambda>q. [1]" first_coordinate "[]" two_records "[]" "- 1" 5]
    by (simp add: a b)
qed

text \<open>
  Claim C4 as stated fails for a negative \<open>k\<close>: on a store of two records the search
  with \<open>k = -1\<close> returns one record, which is neither empty nor of length
  \<open>min k n\<close>.
\<close>

theorem negative_k_counterexample:
  "search_similar (\<lambda>q. [1]) first_coordinate [] (- 1) two_records
     = [(sample_entry 2 [3], 3)]
   \<and> length (database two_records) = 2"
  by (simp add: search_similar_def two_records_def py_slice_to_def first_coordinate_def
      sample_entry_def)

subsection \<open>Adding a record\<close>

lemma add_to_database_appends:
  "\<exists>e. database (snd (add_to_database encode stamp fs src_type src_path ttl original corrected
        cat info s)) = database s @ [e]
     \<and> entry_id e = length (database s) + 1
     \<and> db_file (snd (add_to_database encode stamp fs src_type src_path ttl original corrected
        cat info s))
       = Doc (database (snd (add_to_database encode stamp fs src_type src_path ttl original
            corrected cat info s)))"
  by (cases "save_transcript_to_file fs")
    (auto simp: add_to_database_def Let_def save_database_def)

lemma add_completes_after_late_failure:
  assumes "makedirs_ok fs" and "folder_exists fs" and "\<not> write_ok fs \<or> \<not> file_exists fs"
  shows "fst (add_to_database encode stamp fs src_type src_path ttl original corrected cat info s)
       = None
    \<and> map saved_file_path (database (snd (add_to_database encode stamp fs src_type src_path ttl
          original corrected cat info s)))
       = map saved_file_path (database s) @ [None]"
  using assms
  by (auto simp: add_to_database_def Let_def save_database_def save_transcript_to_file_def
      save_transcript_body_def)

text \<open>
  Claim C9 (allowed inconsistency between index and transcript file) does not hold of
  the code when the write fails before the file name is computed. When the folder cannot
  be created, the handler of \<open>save_transcript_to_file\<close> reads the unassigned variable
  \<open>filename\<close>, and \<open>add_to_database\<close> is left by an \<open>UnboundLocalError\<close>; the
  record is in the index, without a file path. When the folder is there and the file
  cannot be written, the handler returns \<open>None\<close> and the operation completes, as the
  claim says.
\<close>

theorem write_failure_raises:
  "save_transcript_to_file folder_creation_fails = Inl Unbound_local_error
   \<and> fst (add_to_database (\<lambda>t. [1]) [] folder_creation_fails [102, 105, 108, 101] [] [] [] []
          sonota initial_result empty_system) = Some Unbound_local_error
   \<and> map saved_file_path (database (snd (add_to_database (\<lambda>t. [1]) [] folder_creation_fails
          [102, 105, 108, 101] [] [] [] [] sonota initial_result empty_system))) = [None]
   \<and> save_transcript_to_file file_write_fails = Inr None
   \<and> fst (add_to_database (\<lambda>t. [1]) [] file_write_fails [102, 105, 108, 101] [] [] [] []
          sonota initial_result empty_system) = None"
  by (simp add: add_to_database_def Let_def save_database_def save_transcript_to_file_def
      save_transcript_body_def folder_creation_fails_def file_write_fails_def empty_system_def
      init_system_def load_database_def)

subsection \<open>The counter of processed files\<close>

lemma learn_keeps_total_files:
  "total_files (processing_stats (learn_from_correction now ot ct ws s))
     = total_files (processing_stats s)"
  by (simp add: learn_from_correction_def Let_def save_confidence_patterns_def
      save_learned_corrections_def split: prod.splits)

lemma transcribe_keeps_total_files:
  "total_files (processing_stats (snd (transcribe_with_claude_correction re_sub now elapsed
      whisper oracle s))) = total_files (processing_stats s)"
  by (simp add: transcribe_with_claude_correction_def Let_def add_processing_time_def
      count_success_def count_correction_def learn_keeps_total_files
      split: sum.splits prod.splits)

lemma classify_api_keeps_total_files:
  "total_files (processing_stats (snd (classify_with_claude_api resp text0 s)))
     = total_files (processing_stats s)"
  by (cases resp) (simp_all add: classify_with_claude_api_def Let_def count_classification_def)

lemma classify_keeps_total_files:
  "total_files (processing_stats (snd (classify_text lower resp text0 s)))
     = total_files (processing_stats s)"
proof -
  obtain c s' where k: "classify_with_claude_api resp text0 s = (c, s')"
    by (cases "classify_with_claude_api resp text0 s") auto
  have t: "total_files (processing_stats s') = total_files (processing_stats s)"
    using classify_api_keeps_total_files [of resp text0 s] by (simp add: k)
  show ?thesis
    by (cases "fallback_category lower text0") (simp_all add: classify_text_def k t)
qed

lemma add_keeps_integration:
  "claude_integration (snd (add_to_database encode stamp fs src_type src_path ttl original
      corrected cat info s)) = claude_integration s"
  by (simp add: add_to_database_def Let_def save_database_def split: sum.splits)

lemma clear_keeps_total_files:
  "total_files (processing_stats (claude_integration (clear_learned_patterns confirm s)))
     = total_files (processing_stats (claude_integration s))"
  by (simp add: clear_learned_patterns_def save_confidence_patterns_def
      save_learned_corrections_def)

lemma process_keeps_total_files:
  "total_files (processing_stats (claude_integration
      (snd (process_audio_file env file_path basename s))))
     = total_files (processing_stats (claude_integration s))"
proof -
  obtain result ci where t: "transcribe_with_claude_correction (env_re_sub env) (env_now env)
      (env_elapsed env) (env_whisper env) (env_rewrite env) (claude_integration s) = (result, ci)"
    by (cases "transcribe_with_claude_correction (env_re_sub env) (env_now env)
      (env_elapsed env) (env_whisper env) (env_rewrite env) (claude_integration s)") auto
  have t0: "total_files (processing_stats ci) = total_files (processing_stats (claude_integration s))"
    using transcribe_keeps_total_files [of "env_re_sub env" "env_now env" "env_elapsed env"
        "env_whisper env" "env_rewrite env" "claude_integration s"] by (simp add: t)
  obtain classified ci2 where c: "classify_text (env_lower env) (env_classify env)
      (corrected_transcript result) ci = (classified, ci2)"
    by (cases "classify_text (env_lower env) (env_classify env) (corrected_transcript result) ci")
      auto
  have c0: "total_files (processing_stats ci2) = total_files (processing_stats ci)"
    using classify_keeps_total_files [of "env_lower env" "env_classify env"
        "corrected_transcript result" ci] by (simp add: c)
  show ?thesis
  proof (cases classified)
    case (Inl e)
    then show ?thesis by (simp add: process_audio_file_def t c Let_def t0 c0)
  next
    case (Inr cat)
    obtain e s3 where a: "add_to_database (env_encode env) (env_stamp env) (env_files env)
        [102, 105, 108, 101] file_path basename (original_transcript result)
        (corrected_transcript result) cat result (s\<lparr>claude_integration := ci2\<rparr>) = (e, s3)"
      by (cases "add_to_database (env_encode env) (env_stamp env) (env_files env)
        [102, 105, 108, 101] file_path basename (original_transcript result)
        (corrected_transcript result) cat result (s\<lparr>claude_integration := ci2\<rparr>)") auto
    have a0: "claude_integration s3 = ci2"
      using add_keeps_integration [of "env_encode env" "env_stamp env" "env_files env"
          "[102, 105, 108, 101]" file_path basename "original_transcript result"
          "corrected_transcript result" cat result "s\<lparr>claude_integration := ci2\<rparr>"]
      by (simp add: a)
    show ?thesis
      by (cases e) (simp_all add: process_audio_file_def t c Inr a a0 Let_def t0 c0)
  qed
qed

lemma init_total_files:
  "total_files (processing_stats (claude_integration (init_system cf pf dbf))) = 0"
  by (simp add: init_system_def init_integration_def Let_def initial_stats_def)

text \<open>
  Claim C10 (the counter of processed files). In every reachable state
  \<open>total_files\<close> is 0, and so is the number \<open>show_processing_stats\<close> prints as the
  total of processed files: no operation writes the counter after \<open>__init__\<close>.
\<close>

theorem total_files_stays_zero:
  "reachable s \<Longrightarrow>
     total_files (processing_stats (claude_integration s)) = 0 \<and> displayed_total_files s = 0"
proof (induction rule: reachable.induct)
  case (reach_init cf pf dbf)
  show ?case by (simp add: init_total_files displayed_total_files_def)
next
  case (reach_process s env file_path basename)
  then show ?case by (simp add: process_keeps_total_files displayed_total_files_def)
next
  case (reach_transcribe s re_sub now elapsed whisper orc)
  then show ?case by (simp add: transcribe_keeps_total_files displayed_total_files_def)
next
  case (reach_learn s now original_text corrected_text ws)
  then show ?case by (simp add: learn_keeps_total_files displayed_total_files_def)
next
  case (reach_classify s lower resp text0)
  then show ?case by (simp add: classify_keeps_total_files displayed_total_files_def)
next
  case (reach_add s encode stamp fs src_type src_path ttl original corrected cat info)
  then show ?case by (simp add: add_keeps_integration displayed_total_files_def)
next
  case (reach_clear s confirm)
  then show ?case using clear_keeps_total_files [of confirm s]
    by (simp add: displayed_total_files_def)
qed

theorem total_files_stays_zero_witness:
  "reachable processed_once
   \<and> successful_transcriptions (processing_stats (claude_integration processed_once)) = 1
   \<and> total_files (processing_stats (claude_integration processed_once)) = 0
   \<and> displayed_total_files processed_once = 0"
proof -
  have r: "reachable processed_once"
    unfolding processed_once_def empty_system_def by (rule reach_transcribe [OF reach_init])
  have c: "call_claude_api failing_oracle 3 = Inr None"
    by (rule call_claude_api_exhausted) (simp add: failing_oracle_def is_failure_def)
  have n: "successful_transcriptions (processing_stats (claude_integration processed_once)) = 1"
    by (simp add: processed_once_def empty_system_def init_system_def init_integration_def
        transcribe_with_claude_correction_def c Let_def count_success_def
        add_processing_time_def initial_stats_def)
  show ?thesis using r n total_files_stays_zero [OF r] by simp
qed

section \<open>The persisted text: the round trip\<close>

subsection \<open>Strings\<close>

lemma hex_value_hex_digit: "d < 16 \<Longrightarrow> hex_value (hex_digit d) = Some d"
  by (simp add: hex_value_def hex_digit_def)

lemma hex4_control: "c < 32 \<Longrightarrow> hex4 48 48 (hex_digit (c div 16)) (hex_digit (c mod 16)) = Some c"
proof -
  assume c: "c < 32"
  have a: "hex_value 48 = Some 0" by (simp add: hex_value_def)
  have b: "hex_value (hex_digit (c div 16)) = Some (c div 16)"
    using c by (intro hex_value_hex_digit) simp
  have d: "hex_value (hex_digit (c mod 16)) = Some (c mod 16)"
    by (intro hex_value_hex_digit) simp
  show ?thesis by (simp add: hex4_def a b d)
qed

lemma scan_unicode_escape_control:
  "c < 32 \<Longrightarrow>
   scan_unicode_escape (48 # 48 # hex_digit (c div 16) # hex_digit (c mod 16) # t) = Some (c, t)"
  by (simp add: scan_unicode_escape_def hex4_control)

lemma scanstring_escape_char: "scanstring (escape_char c @ t) = prepend c (scanstring t)"
proof -
  consider (short) "c = 92 \<or> c = 34 \<or> c = 8 \<or> c = 12 \<or> c = 10 \<or> c = 13 \<or> c = 9"
    | (control) "c < 32" "c \<noteq> 8" "c \<noteq> 12" "c \<noteq> 10" "c \<noteq> 13" "c \<noteq> 9"
    | (plain) "32 \<le> c" "c \<noteq> 92" "c \<noteq> 34"
    by linarith
  then show ?thesis
  proof cases
    case short
    then show ?thesis by (auto simp add: escape_char_def unescape_def)
  next
    case control
    then show ?thesis by (simp add: escape_char_def scan_unicode_escape_control)
  next
    case plain
    then show ?thesis by (simp add: escape_char_def)
  qed
qed

lemma scanstring_escaped:
  "scanstring (concat (map escape_char s) @ 34 # t) = Some (s, t)"
proof (induction s)
  case Nil
  show ?case by simp
next
  case (Cons c s)
  have "scanstring (concat (map escape_char (c # s)) @ 34 # t)
          = scanstring (escape_char c @ (concat (map escape_char s) @ 34 # t))"
    by simp
  also have "\<dots> = prepend c (scanstring (concat (map escape_char s) @ 34 # t))"
    by (rule scanstring_escape_char)
  also have "\<dots> = Some (c # s, t)"
    by (simp only: Cons.IH) (simp add: prepend_def)
  finally show ?case .
qed

lemma encode_basestring_Cons:
  "encode_basestring s @ t = 34 # (concat (map escape_char s) @ 34 # t)"
  by (simp add: encode_basestring_def)

subsection \<open>Numbers\<close>

lemma digits_value_snoc: "digits_value (ds @ [d]) = 10 * digits_value ds + (d - 48)"
  by (simp add: digits_value_def)

lemma show_nat_small: "n < 10 \<Longrightarrow> show_nat n = [48 + n]"
  by (subst show_nat.simps) simp

lemma show_nat_large: "\<not> n < 10 \<Longrightarrow> show_nat n = show_nat (n div 10) @ [48 + n mod 10]"
  by (subst show_nat.simps) simp

lemma show_nat_digits: "list_all is_digit (show_nat n)"
proof (induction n rule: show_nat.induct)
  case (1 n)
  show ?case
  proof (cases "n < 10")
    case True
    then show ?thesis by (simp add: show_nat_small is_digit_def)
  next
    case False
    have "n mod 10 < 10" by simp
    then have "is_digit (48 + n mod 10)" unfolding is_digit_def by linarith
    then show ?thesis using False 1 by (simp add: show_nat_large)
  qed
qed

lemma show_nat_not_Nil: "show_nat n \<noteq> []"
  by (cases "n < 10") (simp_all add: show_nat_small show_nat_large)

lemma digits_value_show_nat: "digits_value (show_nat n) = n"
proof (induction n rule: show_nat.induct)
  case (1 n)
  show ?case
  proof (cases "n < 10")
    case True
    then show ?thesis by (simp add: show_nat_small digits_value_def)
  next
    case False
    then show ?thesis using 1 by (simp add: show_nat_large digits_value_snoc)
  qed
qed

lemma show_nat_hd: "0 < n \<Longrightarrow> hd (show_nat n) \<noteq> 48"
proof (induction n rule: show_nat.induct)
  case (1 n)
  show ?case
  proof (cases "n < 10")
    case True
    then show ?thesis using 1(2) by (simp add: show_nat_small)
  next
    case False
    then have "0 < n div 10" by simp
    then have "hd (show_nat (n div 10)) \<noteq> 48" using 1(1) False by simp
    then show ?thesis using False by (simp add: show_nat_large show_nat_not_Nil)
  qed
qed

lemma show_nat_no_leading_zero: "1 < length (show_nat n) \<Longrightarrow> hd (show_nat n) \<noteq> 48"
proof (cases "n = 0")
  case True
  assume "1 < length (show_nat n)"
  then show ?thesis using True by (simp add: show_nat_small)
next
  case False
  then show ?thesis by (simp add: show_nat_hd)
qed

lemma takeWhile_all: "list_all P xs \<Longrightarrow> takeWhile P xs = xs"
  by (induction xs) simp_all

lemma dropWhile_all: "list_all P xs \<Longrightarrow> dropWhile P xs = []"
  by (induction xs) simp_all

lemma parse_number_digits:
  assumes "list_all is_digit ds" and "ds \<noteq> []" and "1 < length ds \<longrightarrow> hd ds \<noteq> 48"
  shows "parse_number parse_float ds = Some (JInt (int (digits_value ds)))"
proof -
  have h: "hd ds \<noteq> 45" using assms(1,2) by (cases ds) (simp_all add: is_digit_def)
  have t: "takeWhile is_digit ds = ds" using assms(1) by (rule takeWhile_all)
  have d: "dropWhile is_digit ds = []" using assms(1) by (rule dropWhile_all)
  have a: "\<forall>x\<in>set ds. is_digit x" using assms(1) by (simp add: list_all_iff)
  show ?thesis using assms(2,3) a by (simp add: parse_number_def h t d Let_def)
qed

lemma parse_number_negative:
  assumes "list_all is_digit ds" and "ds \<noteq> []" and "1 < length ds \<longrightarrow> hd ds \<noteq> 48"
  shows "parse_number parse_float (45 # ds) = Some (JInt (- int (digits_value ds)))"
proof -
  have t: "takeWhile is_digit ds = ds" using assms(1) by (rule takeWhile_all)
  have d: "dropWhile is_digit ds = []" using assms(1) by (rule dropWhile_all)
  have a: "\<forall>x\<in>set ds. is_digit x" using assms(1) by (simp add: list_all_iff)
  show ?thesis using assms(2,3) a by (simp add: parse_number_def t d Let_def)
qed

lemma parse_number_show_int: "parse_number parse_float (show_int i) = Some (JInt i)"
proof (cases "i < 0")
  case True
  have "parse_number parse_float (45 # show_nat (nat (- i)))
          = Some (JInt (- int (digits_value (show_nat (nat (- i))))))"
    using show_nat_digits show_nat_not_Nil show_nat_no_leading_zero
    by (intro parse_number_negative) blast+
  then show ?thesis using True by (simp add: show_int_def digits_value_show_nat)
next
  case False
  have "parse_number parse_float (show_nat (nat i)) = Some (JInt (int (digits_value (show_nat (nat i)))))"
    using show_nat_digits show_nat_not_Nil show_nat_no_leading_zero
    by (intro parse_number_digits) blast+
  then show ?thesis using False by (simp add: show_int_def digits_value_show_nat)
qed

lemma digit_number_char: "is_digit c \<Longrightarrow> is_number_char c"
  by (simp add: is_number_char_def)

lemma show_int_number_chars: "list_all is_number_char (show_int i)"
proof -
  have "list_all is_number_char (show_nat n)" for n
    using show_nat_digits [of n] by (simp add: list_all_iff digit_number_char)
  then show ?thesis by (simp add: show_int_def is_number_char_def)
qed

lemma show_int_not_Nil: "show_int i \<noteq> []"
  by (simp add: show_int_def show_nat_not_Nil)

text \<open>A run of number characters before a character that is none.\<close>

lemma takeWhile_run:
  "list_all P xs \<Longrightarrow> t \<noteq> [] \<Longrightarrow> \<not> P (hd t) \<Longrightarrow> takeWhile P (xs @ t) = xs"
  by (induction xs) (auto simp add: neq_Nil_conv)

lemma dropWhile_run:
  "list_all P xs \<Longrightarrow> t \<noteq> [] \<Longrightarrow> \<not> P (hd t) \<Longrightarrow> dropWhile P (xs @ t) = t"
  by (induction xs) (auto simp add: neq_Nil_conv)

lemma scan_number_literal:
  assumes "list_all is_number_char lit" and "parse_number parse_float lit = Some v"
    and "t \<noteq> []" and "\<not> is_number_char (hd t)"
  shows "scan_number parse_float (lit @ t) = Some (v, t)"
  using assms by (simp add: scan_number_def takeWhile_run dropWhile_run)

lemma number_char_not_quote: "is_number_char c \<Longrightarrow> c \<noteq> 34"
  by (auto simp add: is_number_char_def is_digit_def)

lemma number_char_not_ws: "is_number_char c \<Longrightarrow> \<not> is_json_ws c"
  by (auto simp add: is_number_char_def is_digit_def is_json_ws_def)

lemma scan_scalar_literal:
  assumes "list_all is_number_char lit" and "lit \<noteq> []" and "parse_number parse_float lit = Some v"
    and "t \<noteq> []" and "\<not> is_number_char (hd t)"
  shows "scan_scalar parse_float (lit @ t) = Some (v, t)"
proof -
  obtain c cs where l: "lit = c # cs" using assms(2) by (cases lit) auto
  have "c \<noteq> 34" using assms(1) l by (simp add: number_char_not_quote)
  then have "scan_scalar parse_float (lit @ t) = scan_number parse_float (lit @ t)"
    by (simp add: scan_scalar_def l)
  then show ?thesis using scan_number_literal [OF assms(1,3,4,5)] by simp
qed

lemma scan_scalar_string: "scan_scalar parse_float (encode_basestring s @ t) = Some (JStr s, t)"
  by (simp add: encode_basestring_Cons scan_scalar_def scanstring_escaped)

lemma scan_string_value_string: "scan_string_value (encode_basestring s @ t) = Some (s, t)"
  by (simp add: encode_basestring_Cons scan_string_value_def scanstring_escaped)

subsection \<open>Objects\<close>

lemma skip_ws_start: "\<not> is_json_ws c \<Longrightarrow> skip_ws (c # t) = c # t"
  by (simp add: skip_ws_def)

lemma skip_ws_space: "skip_ws (32 # t) = skip_ws t"
  by (simp add: skip_ws_def is_json_ws_def)

lemma skip_ws_newline_indent:
  "\<not> is_json_ws c \<Longrightarrow> skip_ws (newline_indent n @ c # t) = c # t"
proof -
  assume c: "\<not> is_json_ws c"
  have "\<forall>x\<in>set (newline_indent n). is_json_ws x"
    by (auto simp add: newline_indent_def is_json_ws_def)
  then have "dropWhile is_json_ws (newline_indent n @ c # t) = dropWhile is_json_ws (c # t)"
    by (simp add: dropWhile_append2)
  then show ?thesis using c by (simp add: skip_ws_def)
qed

lemma newline_indent_hd: "newline_indent n @ t \<noteq> [] \<and> hd (newline_indent n @ t) = 10"
  by (simp add: newline_indent_def)

lemma items_chunks_False:
  "ms \<noteq> [] \<Longrightarrow> items_chunks L vc False ms = (44 # newline_indent L) # items_chunks L vc True ms"
  by (cases ms) auto

lemma items_text_Cons:
  "concat (items_chunks L vc True ((k, v) # ms))
     = 34 # (concat (map escape_char k) @ 34 # 58 # 32 # concat (vc v)
             @ concat (items_chunks L vc False ms))"
  by (simp add: encode_basestring_def)

text \<open>One member of an object, followed by the rest of the object.\<close>

lemma parse_members_last:
  assumes pv: "pv (V @ newline_indent M @ 125 # rest) = Some (v, newline_indent M @ 125 # rest)"
    and V: "V \<noteq> []" "\<not> is_json_ws (hd V)"
  shows "parse_members pv (Suc fuel)
           (concat (map escape_char k) @ 34 # 58 # 32 # V @ newline_indent M @ 125 # rest)
         = Some ([(k, v)], rest)"
proof -
  obtain c cs where Vc: "V = c # cs" using V(1) by (cases V) auto
  have c: "\<not> is_json_ws c" using V(2) Vc by simp
  have a: "scanstring (concat (map escape_char k) @ 34 # 58 # 32 # V @ newline_indent M @ 125 # rest)
             = Some (k, 58 # 32 # V @ newline_indent M @ 125 # rest)"
    by (rule scanstring_escaped)
  have b: "skip_ws (58 # 32 # V @ newline_indent M @ 125 # rest)
             = 58 # 32 # V @ newline_indent M @ 125 # rest"
    by (rule skip_ws_start) (simp add: is_json_ws_def)
  have d: "skip_ws (32 # V @ newline_indent M @ 125 # rest) = V @ newline_indent M @ 125 # rest"
    using c by (simp add: skip_ws_space Vc skip_ws_start)
  have e: "skip_ws (newline_indent M @ 125 # rest) = 125 # rest"
    by (rule skip_ws_newline_indent) (simp add: is_json_ws_def)
  show ?thesis by (simp add: a b d e pv)
qed

lemma parse_members_next:
  assumes pv: "pv (V @ 44 # newline_indent L @ 34 # X) = Some (v, 44 # newline_indent L @ 34 # X)"
    and V: "V \<noteq> []" "\<not> is_json_ws (hd V)"
    and X: "parse_members pv fuel X = Some (ms, rest)"
  shows "parse_members pv (Suc fuel)
           (concat (map escape_char k) @ 34 # 58 # 32 # V @ 44 # newline_indent L @ 34 # X)
         = Some ((k, v) # ms, rest)"
proof -
  obtain c cs where Vc: "V = c # cs" using V(1) by (cases V) auto
  have c: "\<not> is_json_ws c" using V(2) Vc by simp
  have a: "scanstring (concat (map escape_char k) @ 34 # 58 # 32 # V @ 44 # newline_indent L @ 34 # X)
             = Some (k, 58 # 32 # V @ 44 # newline_indent L @ 34 # X)"
    by (rule scanstring_escaped)
  have b: "skip_ws (58 # 32 # V @ 44 # newline_indent L @ 34 # X)
             = 58 # 32 # V @ 44 # newline_indent L @ 34 # X"
    by (rule skip_ws_start) (simp add: is_json_ws_def)
  have d: "skip_ws (32 # V @ 44 # newline_indent L @ 34 # X) = V @ 44 # newline_indent L @ 34 # X"
    using c by (simp add: skip_ws_space Vc skip_ws_start)
  have e: "skip_ws (44 # newline_indent L @ 34 # X) = 44 # newline_indent L @ 34 # X"
    by (rule skip_ws_start) (simp add: is_json_ws_def)
  have f: "skip_ws (newline_indent L @ 34 # X) = 34 # X"
    by (rule skip_ws_newline_indent) (simp add: is_json_ws_def)
  show ?thesis by (simp add: a b d e f pv X)
qed

lemma reads_back_Cons:
  "reads_back pv vc ((k, v) # ms) \<Longrightarrow> reads_back pv vc ms"
  by (simp add: reads_back_def)

lemma reads_back_hd:
  assumes "reads_back pv vc ((k, v) # ms)"
  shows "concat (vc v) \<noteq> []" and "\<not> is_json_ws (hd (concat (vc v)))"
    and "t \<noteq> [] \<Longrightarrow> hd t = 44 \<or> hd t = 10 \<Longrightarrow> pv (concat (vc v) @ t) = Some (v, t)"
  using assms by (simp_all add: reads_back_def)

lemma parse_members_items:
  assumes "reads_back pv vc ms" and "ms \<noteq> []" and "length ms \<le> fuel"
  shows "parse_members pv fuel
           (tl (concat (items_chunks L vc True ms)) @ newline_indent M @ 125 # rest)
         = Some (ms, rest)"
  using assms
proof (induction ms arbitrary: fuel)
  case Nil
  then show ?case by simp
next
  case (Cons m ms)
  obtain k v where m: "m = (k, v)" by (cases m)
  obtain f where fuel: "fuel = Suc f" and f: "length ms \<le> f"
    using Cons.prems(3) by (cases fuel) auto
  have rb: "reads_back pv vc ((k, v) # ms)" using Cons.prems(1) m by simp
  note V = reads_back_hd(1,2) [OF rb]
  show ?case
  proof (cases "ms = []")
    case True
    have pv: "pv (concat (vc v) @ newline_indent M @ 125 # rest)
                = Some (v, newline_indent M @ 125 # rest)"
      by (rule reads_back_hd(3) [OF rb]) (simp_all add: newline_indent_def)
    show ?thesis
      using parse_members_last [where pv = pv and V = "concat (vc v)" and M = M and rest = rest
          and v = v and fuel = f and k = k] pv V
      by (simp add: m True fuel encode_basestring_def)
  next
    case False
    let ?X = "tl (concat (items_chunks L vc True ms)) @ newline_indent M @ 125 # rest"
    have X: "parse_members pv f ?X = Some (ms, rest)"
      using Cons.IH [OF reads_back_Cons [OF rb] False f] .
    obtain k' v' ms' where ms: "ms = (k', v') # ms'" using False by (cases ms) auto
    have q: "concat (items_chunks L vc True ms) = 34 # tl (concat (items_chunks L vc True ms))"
      by (simp add: ms encode_basestring_def)
    have pv: "pv (concat (vc v) @ 44 # newline_indent L @ 34 # ?X)
                = Some (v, 44 # newline_indent L @ 34 # ?X)"
      by (rule reads_back_hd(3) [OF rb]) simp_all
    have shape: "tl (concat (items_chunks L vc True ((k, v) # ms))) @ newline_indent M @ 125 # rest
          = concat (map escape_char k) @ 34 # 58 # 32 # concat (vc v) @ 44 # newline_indent L @ 34 # ?X"
    proof -
      have "concat (items_chunks L vc False ms) @ newline_indent M @ 125 # rest
              = 44 # newline_indent L @ 34 # ?X"
        using q by (simp add: items_chunks_False [OF False])
      then show ?thesis by (simp add: encode_basestring_def)
    qed
    show ?thesis
      unfolding m fuel shape
      using parse_members_next [where pv = pv and V = "concat (vc v)" and L = L and X = ?X
          and v = v and fuel = f and k = k and ms = ms and rest = rest] pv V X
      by blast
  qed
qed

lemma items_text_length: "length ms \<le> length (concat (items_chunks L vc first ms))"
proof (induction ms arbitrary: first)
  case Nil
  show ?case by simp
next
  case (Cons m ms)
  obtain k v where m: "m = (k, v)" by (cases m)
  have "length ms \<le> length (concat (items_chunks L vc False ms))" by (rule Cons.IH)
  then show ?case by (simp add: m encode_basestring_def)
qed

lemma items_text_length_tl:
  "ms \<noteq> [] \<Longrightarrow> length ms \<le> length (tl (concat (items_chunks L vc True ms)))"
proof -
  assume "ms \<noteq> []"
  then obtain k v ms' where ms: "ms = (k, v) # ms'" by (cases ms) auto
  have "length ms' \<le> length (concat (items_chunks L vc False ms'))" by (rule items_text_length)
  then show ?thesis by (simp add: ms encode_basestring_def)
qed

lemma parse_object_dict:
  assumes "reads_back pv vc ms"
  shows "parse_object pv (concat (iterencode_dict M vc ms) @ rest) = Some (ms, rest)"
proof (cases "ms = []")
  case True
  have "skip_ws (125 # rest) = 125 # rest" by (rule skip_ws_start) (simp add: is_json_ws_def)
  then show ?thesis by (simp add: True iterencode_dict_def parse_object_def)
next
  case False
  define X where "X = tl (concat (items_chunks (Suc M) vc True ms)) @ newline_indent M @ 125 # rest"
  obtain k v ms' where ms: "ms = (k, v) # ms'" using False by (cases ms) auto
  have q: "concat (items_chunks (Suc M) vc True ms)
             = 34 # tl (concat (items_chunks (Suc M) vc True ms))"
    by (simp add: ms encode_basestring_def)
  have shape: "concat (iterencode_dict M vc ms) @ rest = 123 # newline_indent (Suc M) @ 34 # X"
  proof -
    have "concat (iterencode_dict M vc ms) @ rest
            = 123 # newline_indent (Suc M) @ concat (items_chunks (Suc M) vc True ms)
                @ newline_indent M @ 125 # rest"
      using False by (simp add: iterencode_dict_def)
    also have "\<dots> = 123 # newline_indent (Suc M) @ 34 # X"
      unfolding X_def by (subst q) simp
    finally show ?thesis .
  qed
  have s: "skip_ws (newline_indent (Suc M) @ 34 # X) = 34 # X"
    by (rule skip_ws_newline_indent) (simp add: is_json_ws_def)
  have len: "length ms \<le> length X"
    using items_text_length_tl [OF False, of "Suc M" vc] by (simp add: X_def)
  have "parse_members pv (length X) X = Some (ms, rest)"
    unfolding X_def using assms False len [unfolded X_def] by (rule parse_members_items)
  then show ?thesis unfolding shape by (simp add: parse_object_def s)
qed

lemma dict_text_start:
  "concat (iterencode_dict M vc ms) \<noteq> [] \<and> hd (concat (iterencode_dict M vc ms)) = 123"
  by (simp add: iterencode_dict_def)

lemma json_loads_dict:
  assumes "reads_back pv vc ms"
  shows "json_loads pv (concat (iterencode_dict M vc ms)) = Some ms"
proof -
  obtain t where t: "concat (iterencode_dict M vc ms) = 123 # t"
    using dict_text_start [of M vc ms] by (cases "concat (iterencode_dict M vc ms)") auto
  have "skip_ws (123 # t) = 123 # t" by (rule skip_ws_start) (simp add: is_json_ws_def)
  then have s: "skip_ws (concat (iterencode_dict M vc ms)) = concat (iterencode_dict M vc ms)"
    by (simp add: t)
  have "parse_object pv (concat (iterencode_dict M vc ms) @ []) = Some (ms, [])"
    using assms by (rule parse_object_dict)
  moreover have "skip_ws [] = []" by (simp add: skip_ws_def)
  ultimately show ?thesis by (simp add: json_loads_def s)
qed

subsection \<open>The fuel of the loop over the members\<close>

lemma prepend_Some: "prepend c r = Some (s, rest) \<Longrightarrow> \<exists>s'. r = Some (s', rest)"
  by (auto simp add: prepend_def split: option.splits)

lemma scan_escape_shrinks: "scan_escape cs = Some (u, rest) \<Longrightarrow> length rest < length cs"
proof (cases cs)
  case Nil
  assume "scan_escape cs = Some (u, rest)"
  then show ?thesis using Nil by simp
next
  case (Cons e es)
  assume a: "scan_escape cs = Some (u, rest)"
  show ?thesis
  proof (cases "e = 117")
    case True
    then have "scan_unicode_escape es = Some (u, rest)" using a Cons by simp
    then have "length rest < length es"
      unfolding scan_unicode_escape_def
      by (simp split: list.splits option.splits if_splits) auto
    then show ?thesis using Cons by simp
  next
    case False
    then show ?thesis using a Cons by (auto split: option.splits)
  qed
qed

lemma scanstring_shrinks: "scanstring t = Some (s, r) \<Longrightarrow> length r < length t"
proof (induction t arbitrary: s rule: scanstring.induct)
  case 1
  then show ?case by simp
next
  case (2 c cs)
  show ?case
  proof (cases "c = 34")
    case True
    then show ?thesis using 2(3) by simp
  next
    case quote: False
    show ?thesis
    proof (cases "c = 92")
      case True
      obtain u rest where e: "scan_escape cs = Some (u, rest)"
        using 2(3) quote True by (auto split: option.splits)
      have "prepend u (scanstring rest) = Some (s, r)" using 2(3) quote True e by simp
      then obtain s' where "scanstring rest = Some (s', r)" using prepend_Some by blast
      then have "length r < length rest" using 2(1) quote True e by blast
      then show ?thesis using scan_escape_shrinks [OF e] by simp
    next
      case False
      have "prepend c (scanstring cs) = Some (s, r)"
        using 2(3) quote False by (simp split: if_splits)
      then obtain s' where "scanstring cs = Some (s', r)" using prepend_Some by blast
      moreover have "\<not> c < 32" using 2(3) quote False by (auto split: if_splits)
      ultimately have "length r < length cs" using 2(2) quote False by blast
      then show ?thesis by simp
    qed
  qed
qed

lemma skip_ws_length: "length (skip_ws t) \<le> length t"
  by (simp add: skip_ws_def length_dropWhile_le)

text \<open>
  The loop over the members never stops for want of fuel: with a scanner of values that
  leaves no more than it is given, any fuel from the length of the text on gives the
  same result.
\<close>

lemma parse_members_fuel:
  assumes pv: "\<And>t v r. pv t = Some (v, r) \<Longrightarrow> length r \<le> length t"
  shows "length text0 \<le> fuel \<Longrightarrow> length text0 \<le> fuel'
         \<Longrightarrow> parse_members pv fuel text0 = parse_members pv fuel' text0"
proof (induction fuel arbitrary: text0 fuel')
  case 0
  then show ?case by (cases fuel') simp_all
next
  case (Suc fuel)
  show ?case
  proof (cases fuel')
    case 0
    then show ?thesis using Suc.prems by simp
  next
    case f': (Suc g)
    have step: "parse_members pv fuel t5 = parse_members pv g t5"
      if a: "scanstring text0 = Some (key, t1)" and b: "skip_ws t1 = c # t2"
        and c: "pv (skip_ws t2) = Some (v, t3)" and d: "skip_ws t3 = e # t4"
        and e: "skip_ws t4 = q # t5"
      for key t1 c t2 v t3 e t4 q t5
    proof -
      have "length t1 < length text0" using a by (rule scanstring_shrinks)
      moreover have "length t2 < length t1" using skip_ws_length [of t1] b by simp
      moreover have "length t3 \<le> length t2" using pv [OF c] skip_ws_length [of t2] by simp
      moreover have "length t4 < length t3" using skip_ws_length [of t3] d by simp
      moreover have "length t5 < length t4" using skip_ws_length [of t4] e by simp
      ultimately have "length t5 < length text0" by simp
      then have "length t5 \<le> fuel" "length t5 \<le> g" using Suc.prems f' by simp_all
      then show ?thesis by (rule Suc.IH)
    qed
    show ?thesis
      unfolding f' parse_members.simps
      by (auto split: option.splits list.splits simp add: step)
  qed
qed

lemma scan_string_value_shrinks:
  "scan_string_value t = Some (v, r) \<Longrightarrow> length r \<le> length t"
  by (cases t) (auto simp add: scan_string_value_def split: if_splits dest: scanstring_shrinks)

lemma scan_scalar_shrinks: "scan_scalar parse_float t = Some (v, r) \<Longrightarrow> length r \<le> length t"
proof (cases t)
  case Nil
  assume "scan_scalar parse_float t = Some (v, r)"
  then show ?thesis using Nil by (simp add: scan_scalar_def)
next
  case (Cons c cs)
  assume a: "scan_scalar parse_float t = Some (v, r)"
  show ?thesis
  proof (cases "c = 34")
    case True
    then obtain s where "scanstring cs = Some (s, r)"
      using a Cons by (auto simp add: scan_scalar_def split: option.splits)
    then show ?thesis using Cons scanstring_shrinks by fastforce
  next
    case False
    then have "scan_number parse_float t = Some (v, r)" using a Cons by (simp add: scan_scalar_def)
    then have "r = dropWhile is_number_char t"
      by (auto simp add: scan_number_def split: option.splits)
    then show ?thesis by (simp add: length_dropWhile_le)
  qed
qed

lemma parse_members_shrinks:
  assumes pv: "\<And>t v r. pv t = Some (v, r) \<Longrightarrow> length r \<le> length t"
  shows "parse_members pv fuel text0 = Some (ms, rest) \<Longrightarrow> length rest < length text0"
proof (induction fuel arbitrary: text0 ms rest)
  case 0
  then show ?case by simp
next
  case (Suc fuel)
  obtain key t1 where a: "scanstring text0 = Some (key, t1)"
    using Suc.prems by (auto split: option.splits)
  obtain c t2 where b: "skip_ws t1 = c # t2"
    using Suc.prems a by (auto split: list.splits)
  obtain v t3 where c: "pv (skip_ws t2) = Some (v, t3)"
    using Suc.prems a b by (auto split: option.splits if_splits)
  obtain e t4 where d: "skip_ws t3 = e # t4"
    using Suc.prems a b c by (auto split: list.splits if_splits)
  have l: "length t4 < length text0"
  proof -
    have "length t1 < length text0" using a by (rule scanstring_shrinks)
    moreover have "length t2 < length t1" using skip_ws_length [of t1] b by simp
    moreover have "length t3 \<le> length t2" using pv [OF c] skip_ws_length [of t2] by simp
    moreover have "length t4 < length t3" using skip_ws_length [of t3] d by simp
    ultimately show ?thesis by simp
  qed
  show ?case
  proof (cases "e = 125")
    case True
    then have "rest = t4" using Suc.prems a b c d by (auto split: if_splits)
    then show ?thesis using l by simp
  next
    case False
    then obtain q t5 where e: "skip_ws t4 = q # t5"
      using Suc.prems a b c d by (auto split: list.splits if_splits)
    obtain ms' where "parse_members pv fuel t5 = Some (ms', rest)"
      using Suc.prems a b c d e False by (auto split: option.splits if_splits)
    then have "length rest < length t5" by (rule Suc.IH)
    moreover have "length t5 < length t4" using skip_ws_length [of t4] e by simp
    ultimately show ?thesis using l by simp
  qed
qed

lemma parse_object_shrinks:
  assumes pv: "\<And>t v r. pv t = Some (v, r) \<Longrightarrow> length r \<le> length t"
    and p: "parse_object pv text0 = Some (ms, rest)"
  shows "length rest \<le> length text0"
proof -
  obtain t0 where t: "text0 = 123 # t0"
    using p by (cases text0) (auto simp add: parse_object_def split: if_splits)
  obtain q t1 where s: "skip_ws t0 = q # t1"
    using p t by (cases "skip_ws t0") (auto simp add: parse_object_def)
  have l: "length t1 < length t0" using skip_ws_length [of t0] s by simp
  show ?thesis
  proof (cases "q = 125")
    case True
    then have "rest = t1" using p t s by (simp add: parse_object_def)
    then show ?thesis using l t by simp
  next
    case False
    then have "parse_members pv (length t1) t1 = Some (ms, rest)"
      using p t s by (simp add: parse_object_def split: if_splits)
    then have "length rest < length t1" using pv parse_members_shrinks by blast
    then show ?thesis using l t by simp
  qed
qed

lemma scan_pattern_shrinks: "scan_pattern parse_float t = Some (p, r) \<Longrightarrow> length r \<le> length t"
proof -
  assume a: "scan_pattern parse_float t = Some (p, r)"
  then obtain obj where "parse_object (scan_scalar parse_float) t = Some (obj, r)"
    by (auto simp add: scan_pattern_def split: option.splits)
  then show ?thesis using scan_scalar_shrinks parse_object_shrinks by blast
qed

lemma corrections_fuel:
  "length t \<le> fuel \<Longrightarrow>
   parse_members scan_string_value fuel t = parse_members scan_string_value (length t) t"
  using scan_string_value_shrinks by (intro parse_members_fuel) auto

lemma patterns_fuel:
  "length t \<le> fuel \<Longrightarrow> parse_members (scan_pattern parse_float) fuel t = parse_members (scan_pattern parse_float) (length t) t"
  using scan_pattern_shrinks by (intro parse_members_fuel) auto

subsection \<open>What is written\<close>

lemma write_chunks_encodable:
  "list_all (list_all utf8_encodable) chunks \<Longrightarrow> write_chunks chunks w = (None, w @ concat chunks)"
  by (induction chunks arbitrary: w) simp_all

lemma escape_char_encodable: "utf8_encodable c \<Longrightarrow> list_all utf8_encodable (escape_char c)"
proof -
  assume c: "utf8_encodable c"
  have k: "utf8_encodable 92" "utf8_encodable 34" "utf8_encodable 98" "utf8_encodable 102"
    "utf8_encodable 110" "utf8_encodable 114" "utf8_encodable 116" "utf8_encodable 117"
    "utf8_encodable 48"
    by (simp_all add: utf8_encodable_def)
  have h: "utf8_encodable (hex_digit d)" if "d < 16" for d
    using that by (simp add: hex_digit_def utf8_encodable_def)
  have "c < 32 \<Longrightarrow> c div 16 < 16" by simp
  moreover have "c mod 16 < 16" by simp
  ultimately show ?thesis using c k h by (simp add: escape_char_def)
qed

lemma encode_basestring_encodable:
  "encodable s \<Longrightarrow> list_all utf8_encodable (encode_basestring s)"
proof -
  assume "encodable s"
  then have "list_all utf8_encodable (concat (map escape_char s))"
    unfolding encodable_def by (induction s) (simp_all add: escape_char_encodable)
  then show ?thesis by (simp add: encode_basestring_def utf8_encodable_def)
qed

lemma newline_indent_encodable: "list_all utf8_encodable (newline_indent n)"
  by (simp add: newline_indent_def utf8_encodable_def list_all_iff)

lemma number_chars_encodable: "list_all is_number_char lit \<Longrightarrow> list_all utf8_encodable lit"
  by (induction lit) (auto simp add: is_number_char_def is_digit_def utf8_encodable_def)

lemma items_chunks_encodable:
  assumes "list_all (\<lambda>(k, v). encodable k \<and> list_all (list_all utf8_encodable) (vc v)) ms"
  shows "list_all (list_all utf8_encodable) (items_chunks L vc first ms)"
  using assms
proof (induction ms arbitrary: first)
  case Nil
  show ?case by simp
next
  case (Cons m ms)
  obtain k v where m: "m = (k, v)" by (cases m)
  have a: "list_all utf8_encodable (44 # newline_indent L)"
    using newline_indent_encodable [of L] by (simp add: utf8_encodable_def)
  have b: "list_all utf8_encodable [58, 32]" by (simp add: utf8_encodable_def)
  have c: "list_all utf8_encodable (encode_basestring k)"
    using Cons.prems m by (simp add: encode_basestring_encodable)
  have d: "list_all (list_all utf8_encodable) (vc v)" using Cons.prems m by simp
  have e: "list_all (list_all utf8_encodable) (items_chunks L vc False ms)"
    using Cons.prems by (intro Cons.IH) simp
  show ?case unfolding m using a b c d e by simp
qed

lemma iterencode_dict_encodable:
  assumes "list_all (\<lambda>(k, v). encodable k \<and> list_all (list_all utf8_encodable) (vc v)) ms"
  shows "list_all (list_all utf8_encodable) (iterencode_dict M vc ms)"
proof -
  have a: "list_all utf8_encodable [123]" "list_all utf8_encodable [125]"
    "list_all utf8_encodable [123, 125]"
    by (simp_all add: utf8_encodable_def)
  show ?thesis
    using a items_chunks_encodable [OF assms] newline_indent_encodable
    by (simp add: iterencode_dict_def)
qed

lemma corrections_chunks_encodable:
  assumes "list_all (\<lambda>(k, v). encodable k \<and> encodable v) lc"
  shows "list_all (list_all utf8_encodable) (corrections_chunks lc)"
proof -
  have "list_all (\<lambda>(k, v). encodable k
          \<and> list_all (list_all utf8_encodable) ((\<lambda>v. [encode_basestring v]) v)) lc"
    using assms by (induction lc) (auto simp add: encode_basestring_encodable)
  then show ?thesis unfolding corrections_chunks_def by (rule iterencode_dict_encodable)
qed

lemma keys_encodable:
  "encodable key_avg_confidence" "encodable key_count" "encodable key_first_seen"
  by (simp_all add: encodable_def key_avg_confidence_def key_count_def key_first_seen_def
      utf8_encodable_def)

lemma pattern_chunks_encodable:
  assumes "encodable (first_seen p)"
    and "float_literal parse_float (float_repr (avg_confidence p)) (avg_confidence p)"
  shows "list_all (list_all utf8_encodable)
           (iterencode_dict M (\<lambda>v. [scalar_chunk float_repr v]) (pattern_fields p))"
proof -
  have a: "list_all utf8_encodable (float_repr (avg_confidence p))"
    using assms(2) by (simp add: float_literal_def number_chars_encodable)
  have b: "list_all utf8_encodable (show_int (count p))"
    using show_int_number_chars by (rule number_chars_encodable)
  have c: "list_all utf8_encodable (encode_basestring (first_seen p))"
    using assms(1) by (rule encode_basestring_encodable)
  show ?thesis
    by (rule iterencode_dict_encodable)
      (simp add: pattern_fields_def scalar_chunk_def keys_encodable a b c)
qed

lemma patterns_chunks_encodable:
  assumes "list_all (\<lambda>(k, p). encodable k \<and> encodable (first_seen p)) cp"
    and "list_all (\<lambda>(k, p). float_literal parse_float (float_repr (avg_confidence p)) (avg_confidence p)) cp"
  shows "list_all (list_all utf8_encodable) (patterns_chunks float_repr cp)"
proof -
  have "list_all (\<lambda>(k, p). encodable k
          \<and> list_all (list_all utf8_encodable)
              ((\<lambda>p. iterencode_dict 1 (\<lambda>v. [scalar_chunk float_repr v]) (pattern_fields p)) p)) cp"
    using assms by (induction cp) (auto simp add: pattern_chunks_encodable)
  then show ?thesis unfolding patterns_chunks_def by (rule iterencode_dict_encodable)
qed

subsection \<open>What is read back\<close>

lemma corrections_read_back:
  "reads_back scan_string_value (\<lambda>v. [encode_basestring v]) lc"
proof -
  have "encode_basestring v \<noteq> [] \<and> \<not> is_json_ws (hd (encode_basestring v))" for v
    by (simp add: encode_basestring_def is_json_ws_def)
  then show ?thesis by (auto simp add: reads_back_def scan_string_value_string)
qed

lemma pattern_fields_read_back:
  assumes "float_literal parse_float (float_repr (avg_confidence p)) (avg_confidence p)"
  shows "reads_back (scan_scalar parse_float) (\<lambda>v. [scalar_chunk float_repr v]) (pattern_fields p)"
proof -
  have sep: "\<not> is_number_char (hd t)" if "hd t = 44 \<or> hd t = 10" for t :: ustring
    using that by (auto simp add: is_number_char_def is_digit_def)
  have lit: "list_all is_number_char (float_repr (avg_confidence p))"
    "float_repr (avg_confidence p) \<noteq> []"
    "parse_number parse_float (float_repr (avg_confidence p)) = Some (JFloat (avg_confidence p))"
    using assms by (simp_all add: float_literal_def)
  have f1: "float_repr (avg_confidence p) \<noteq> []
            \<and> \<not> is_json_ws (hd (float_repr (avg_confidence p)))"
    using lit(1,2) by (cases "float_repr (avg_confidence p)") (simp_all add: number_char_not_ws)
  have f2: "scan_scalar parse_float (float_repr (avg_confidence p) @ t) = Some (JFloat (avg_confidence p), t)"
    if "t \<noteq> []" "hd t = 44 \<or> hd t = 10" for t
    using lit that(1) sep [OF that(2)] by (rule scan_scalar_literal)
  have i1: "show_int (count p) \<noteq> [] \<and> \<not> is_json_ws (hd (show_int (count p)))"
    using show_int_number_chars [of "count p"] show_int_not_Nil [of "count p"]
    by (cases "show_int (count p)") (simp_all add: number_char_not_ws)
  have i2: "scan_scalar parse_float (show_int (count p) @ t) = Some (JInt (count p), t)"
    if "t \<noteq> []" "hd t = 44 \<or> hd t = 10" for t
    using show_int_number_chars show_int_not_Nil parse_number_show_int that(1) sep [OF that(2)]
    by (rule scan_scalar_literal)
  have s1: "encode_basestring (first_seen p) \<noteq> []
            \<and> \<not> is_json_ws (hd (encode_basestring (first_seen p)))"
    by (simp add: encode_basestring_def is_json_ws_def)
  show ?thesis
    unfolding reads_back_def pattern_fields_def
    using f1 f2 i1 i2 s1 by (simp add: scalar_chunk_def scan_scalar_string)
qed

lemma keys_distinct:
  "key_avg_confidence \<noteq> key_count" "key_avg_confidence \<noteq> key_first_seen"
  "key_count \<noteq> key_first_seen"
  by (simp_all add: key_avg_confidence_def key_count_def key_first_seen_def)

lemma pattern_of_fields_pattern_fields: "pattern_of_fields (pattern_fields p) = Some p"
proof -
  have "distinct (dict_keys (pattern_fields p))"
    using keys_distinct by (simp add: pattern_fields_def dict_keys_def)
  then have d: "dict_of_members (pattern_fields p) = pattern_fields p"
    by (rule dict_of_members_distinct)
  show ?thesis
    unfolding pattern_of_fields_def d Let_def
    using keys_distinct by (simp add: pattern_fields_def dict_get_def)
qed

lemma scan_pattern_pattern:
  assumes "float_literal parse_float (float_repr (avg_confidence p)) (avg_confidence p)"
  shows "scan_pattern parse_float
           (concat (iterencode_dict M (\<lambda>v. [scalar_chunk float_repr v]) (pattern_fields p)) @ t)
         = Some (p, t)"
proof -
  have "reads_back (scan_scalar parse_float) (\<lambda>v. [scalar_chunk float_repr v]) (pattern_fields p)"
    using assms by (rule pattern_fields_read_back)
  then have "parse_object (scan_scalar parse_float)
               (concat (iterencode_dict M (\<lambda>v. [scalar_chunk float_repr v]) (pattern_fields p)) @ t)
             = Some (pattern_fields p, t)"
    by (rule parse_object_dict)
  then show ?thesis by (simp add: scan_pattern_def pattern_of_fields_pattern_fields)
qed

lemma patterns_read_back:
  assumes "list_all (\<lambda>(k, p). float_literal parse_float (float_repr (avg_confidence p)) (avg_confidence p)) cp"
  shows "reads_back (scan_pattern parse_float)
           (\<lambda>p. iterencode_dict 1 (\<lambda>v. [scalar_chunk float_repr v]) (pattern_fields p)) cp"
proof -
  have "concat (iterencode_dict 1 (\<lambda>v. [scalar_chunk float_repr v]) (pattern_fields p)) \<noteq> []
        \<and> \<not> is_json_ws
            (hd (concat (iterencode_dict 1 (\<lambda>v. [scalar_chunk float_repr v]) (pattern_fields p))))"
    for p
    using dict_text_start [of 1 "\<lambda>v. [scalar_chunk float_repr v]" "pattern_fields p"]
    by (simp add: is_json_ws_def)
  then show ?thesis
    using assms unfolding reads_back_def
    by (auto simp add: list_all_iff scan_pattern_pattern)
qed

subsection \<open>Saving, then loading\<close>

lemma save_learned_corrections_text_ok:
  assumes "list_all (\<lambda>(k, v). encodable k \<and> encodable v) (learned_corrections s)"
  shows "save_learned_corrections_text s d
         = (None, d\<lparr>learned_corrections_text :=
                      Some (concat (corrections_chunks (learned_corrections s)))\<rparr>)"
  by (simp add: save_learned_corrections_text_def
      write_chunks_encodable [OF corrections_chunks_encodable [OF assms]])

lemma save_confidence_patterns_text_ok:
  assumes "list_all (\<lambda>(k, p). encodable k \<and> encodable (first_seen p)) (confidence_patterns s)"
    and "list_all (\<lambda>(k, p). float_literal parse_float (float_repr (avg_confidence p)) (avg_confidence p))
           (confidence_patterns s)"
  shows "save_confidence_patterns_text float_repr s d
         = (None, d\<lparr>confidence_patterns_text :=
                      Some (concat (patterns_chunks float_repr (confidence_patterns s)))\<rparr>)"
  by (simp add: save_confidence_patterns_text_def
      write_chunks_encodable [OF patterns_chunks_encodable [OF assms]])

lemma load_corrections_text:
  assumes "distinct (dict_keys lc)"
    and "learned_corrections_text d = Some (concat (corrections_chunks lc))"
  shows "load_learned_corrections_text d = lc"
proof -
  have "json_loads scan_string_value (concat (corrections_chunks lc)) = Some lc"
    unfolding corrections_chunks_def using corrections_read_back by (rule json_loads_dict)
  then show ?thesis
    using assms by (simp add: load_learned_corrections_text_def dict_of_members_distinct)
qed

lemma load_patterns_text:
  assumes "distinct (dict_keys cp)"
    and "list_all (\<lambda>(k, p). float_literal parse_float (float_repr (avg_confidence p)) (avg_confidence p)) cp"
    and "confidence_patterns_text d = Some (concat (patterns_chunks float_repr cp))"
  shows "load_confidence_patterns_text parse_float d = cp"
proof -
  have "json_loads (scan_pattern parse_float) (concat (patterns_chunks float_repr cp)) = Some cp"
    unfolding patterns_chunks_def using patterns_read_back [OF assms(2)] by (rule json_loads_dict)
  then show ?thesis
    using assms(1,3) by (simp add: load_confidence_patterns_text_def dict_of_members_distinct)
qed

text \<open>
  The first model of the files is the model on texts where the write succeeds: a load
  from the file that a text stands for is the load from the text, and a save that raises
  nothing leaves the text of the object that the first model puts into the file.
\<close>

lemma load_learned_corrections_refines:
  "load_learned_corrections (s\<lparr>learned_corrections_file := corrections_file_of d\<rparr>)
     = load_learned_corrections_text d"
  by (simp add: load_learned_corrections_def load_learned_corrections_text_def
      corrections_file_of_def split: option.splits)

lemma load_confidence_patterns_refines:
  "load_confidence_patterns (s\<lparr>confidence_patterns_file := patterns_file_of parse_float d\<rparr>)
     = load_confidence_patterns_text parse_float d"
  by (simp add: load_confidence_patterns_def load_confidence_patterns_text_def
      patterns_file_of_def split: option.splits)

lemma save_learned_corrections_refines:
  assumes "list_all (\<lambda>(k, v). encodable k \<and> encodable v) (learned_corrections s)"
  shows "corrections_file_of (snd (save_learned_corrections_text s d))
         = learned_corrections_file (save_learned_corrections s)"
proof -
  have "json_loads scan_string_value (concat (corrections_chunks (learned_corrections s)))
          = Some (learned_corrections s)"
    unfolding corrections_chunks_def using corrections_read_back by (rule json_loads_dict)
  then show ?thesis
    by (simp add: save_learned_corrections_text_ok [OF assms] corrections_file_of_def
        save_learned_corrections_def)
qed

lemma save_confidence_patterns_refines:
  assumes "list_all (\<lambda>(k, p). encodable k \<and> encodable (first_seen p)) (confidence_patterns s)"
    and "list_all (\<lambda>(k, p). float_literal parse_float (float_repr (avg_confidence p)) (avg_confidence p))
           (confidence_patterns s)"
  shows "patterns_file_of parse_float (snd (save_confidence_patterns_text float_repr s d))
         = confidence_patterns_file (save_confidence_patterns s)"
proof -
  have "json_loads (scan_pattern parse_float) (concat (patterns_chunks float_repr (confidence_patterns s)))
          = Some (confidence_patterns s)"
    unfolding patterns_chunks_def using patterns_read_back [OF assms(2)] by (rule json_loads_dict)
  then show ?thesis
    by (simp add: save_confidence_patterns_text_ok [OF assms] patterns_file_of_def
        save_confidence_patterns_def)
qed

text \<open>
  Claim C8 (persistence round trip), as it holds. Take a store whose dictionaries have
  distinct keys, whose strings can be encoded in UTF-8, and whose averages
  \<open>float.__repr__\<close> prints as float literals that \<open>float\<close> reads back as the same
  float (the two library functions are the parameters \<open>float_repr\<close> and
  \<open>parse_float\<close>). Saving the corrections and then the confidence patterns raises
  nothing, and loading from the two files that the saves leave gives the dictionaries
  saved: the same keys, the same values, the same order. The loads see the files only.
\<close>

theorem text_round_trip:
  assumes "distinct (dict_keys (learned_corrections s))"
    and "distinct (dict_keys (confidence_patterns s))"
    and "encodable_store s"
    and "floats_printable float_repr parse_float s"
    and "save_learned_corrections_text s d = (raised1, d1)"
    and "save_confidence_patterns_text float_repr s d1 = (raised2, d2)"
  shows "raised1 = None \<and> raised2 = None
       \<and> load_learned_corrections_text d2 = learned_corrections s
       \<and> load_confidence_patterns_text parse_float d2 = confidence_patterns s"
proof -
  have e1: "list_all (\<lambda>(k, v). encodable k \<and> encodable v) (learned_corrections s)"
    and e2: "list_all (\<lambda>(k, p). encodable k \<and> encodable (first_seen p)) (confidence_patterns s)"
    using assms(3) by (simp_all add: encodable_store_def)
  have fl: "list_all (\<lambda>(k, p). float_literal parse_float (float_repr (avg_confidence p)) (avg_confidence p))
              (confidence_patterns s)"
    using assms(4) by (simp add: floats_printable_def)
  have r1: "raised1 = None"
    and d1: "d1 = d\<lparr>learned_corrections_text :=
                     Some (concat (corrections_chunks (learned_corrections s)))\<rparr>"
    using assms(5) save_learned_corrections_text_ok [OF e1, of d] by simp_all
  have r2: "raised2 = None"
    and d2: "d2 = d1\<lparr>confidence_patterns_text :=
                      Some (concat (patterns_chunks float_repr (confidence_patterns s)))\<rparr>"
    using assms(6) save_confidence_patterns_text_ok [OF e2 fl, of d1] by simp_all
  have t1: "learned_corrections_text d2
              = Some (concat (corrections_chunks (learned_corrections s)))"
    by (simp add: d2 d1)
  have t2: "confidence_patterns_text d2
              = Some (concat (patterns_chunks float_repr (confidence_patterns s)))"
    by (simp add: d2)
  show ?thesis
    using r1 r2 load_corrections_text [OF assms(1) t1] load_patterns_text [OF assms(2) fl t2]
    by simp
qed

theorem text_round_trip_witness:
  "distinct (dict_keys (learned_corrections escaped_state))
   \<and> distinct (dict_keys (confidence_patterns escaped_state))
   \<and> encodable_store escaped_state
   \<and> floats_printable sample_float_repr sample_parse_float escaped_state
   \<and> fst (save_learned_corrections_text escaped_state empty_disk) = None
   \<and> fst (save_confidence_patterns_text sample_float_repr escaped_state
            (snd (save_learned_corrections_text escaped_state empty_disk))) = None
   \<and> load_learned_corrections_text
        (snd (save_confidence_patterns_text sample_float_repr escaped_state
               (snd (save_learned_corrections_text escaped_state empty_disk))))
       = [([34, 92, 10], [1, 20826]), ([97], [])]
   \<and> load_confidence_patterns_text sample_parse_float
        (snd (save_confidence_patterns_text sample_float_repr escaped_state
               (snd (save_learned_corrections_text escaped_state empty_disk))))
       = [(token_toshu, \<lparr>avg_confidence = 3/10, count = 12, first_seen = [50, 48, 50, 53]\<rparr>),
          ([98], \<lparr>avg_confidence = 1/2, count = 1, first_seen = []\<rparr>)]"
proof -
  have a: "distinct (dict_keys (learned_corrections escaped_state))"
    by (simp add: escaped_state_def dict_keys_def)
  have b: "distinct (dict_keys (confidence_patterns escaped_state))"
    by (simp add: escaped_state_def dict_keys_def token_toshu_def)
  have c: "encodable_store escaped_state"
    by (simp add: encodable_store_def escaped_state_def encodable_def utf8_encodable_def
        token_toshu_def)
  have p3: "parse_number sample_parse_float [48, 46, 51] = Some (JFloat (3/10))"
    by (simp add: parse_number_def Let_def is_digit_def sample_parse_float_def)
  have p5: "parse_number sample_parse_float [48, 46, 53] = Some (JFloat (1/2))"
    by (simp add: parse_number_def Let_def is_digit_def sample_parse_float_def)
  have d: "floats_printable sample_float_repr sample_parse_float escaped_state"
    by (simp add: floats_printable_def escaped_state_def float_literal_def sample_float_repr_def
        is_number_char_def is_digit_def p3 p5)
  show ?thesis
    using a b c d text_round_trip [OF a b c d surjective_pairing surjective_pairing]
    by (simp add: escaped_state_def)
qed

text \<open>
  Claim C8 as stated, for every mapping, fails on a store with the lone surrogate U+D800
  in a key: the save raises \<open>UnicodeEncodeError\<close> after the opening brace and the first
  indent, and the load from the file it leaves gives the empty dictionary.
\<close>

theorem lone_surrogate_counterexample:
  "distinct (dict_keys (learned_corrections surrogate_state))
   \<and> save_learned_corrections_text surrogate_state empty_disk
       = (Some Unicode_encode_error,
          \<lparr>learned_corrections_text = Some [123, 10, 32, 32], confidence_patterns_text = None\<rparr>)
   \<and> load_learned_corrections_text (snd (save_learned_corrections_text surrogate_state empty_disk))
       = []
   \<and> load_learned_corrections_text (snd (save_learned_corrections_text surrogate_state empty_disk))
       \<noteq> learned_corrections surrogate_state"
proof -
  have w: "save_learned_corrections_text surrogate_state empty_disk
       = (Some Unicode_encode_error,
          \<lparr>learned_corrections_text = Some [123, 10, 32, 32], confidence_patterns_text = None\<rparr>)"
    by (simp add: save_learned_corrections_text_def surrogate_state_def empty_disk_def
        corrections_chunks_def iterencode_dict_def encode_basestring_def escape_char_def
        newline_indent_def utf8_encodable_def numeral_2_eq_2)
  have l: "json_loads scan_string_value [123, 10, 32, 32] = None"
    by (simp add: json_loads_def parse_object_def skip_ws_def is_json_ws_def)
  show ?thesis
    unfolding w
    by (simp add: load_learned_corrections_text_def l) (simp add: surrogate_state_def dict_keys_def)
qed

end
